theory Spec2Isabelle
  imports Complex_Main
begin

section \<open>Numeric model\<close>

text \<open>
  The program \<^verbatim>\<open>gpe_2d_simulation.py\<close> is a straight-line numpy script. Its module-level
  constants (\<^verbatim>\<open>Nx, Ny, Lx, Ly, dt, g, V0, a, sigma, steps\<close>) are the parameters of the
  model. A Python \<^verbatim>\<open>float\<close> and a numpy \<^verbatim>\<open>float64\<close> are modelled by \<^typ>\<open>real\<close>, a
  \<^verbatim>\<open>complex128\<close> by \<^typ>\<open>complex\<close>: arithmetic is exact, rounding, overflow and underflow
  are outside the model. What is kept of the floating-point semantics is where a
  non-finite value is born: Python's scalar division raises \<^verbatim>\<open>ZeroDivisionError\<close>, while
  numpy's array division by zero and its square root of a negative number only warn and
  produce \<^verbatim>\<open>inf\<close> or \<^verbatim>\<open>nan\<close>. An array is therefore an \<open>option\<close>: \<open>Some A\<close> is an
  array all of whose entries are finite, with the values \<open>A\<close>; \<open>None\<close> is an array that
  holds at least one \<^verbatim>\<open>nan\<close> or \<^verbatim>\<open>inf\<close>. Every operation of the script maps an array
  with a non-finite entry to an array with a non-finite entry, so \<open>None\<close> is absorbing.

  A two-dimensional array of shape \<open>(Nx, Ny)\<close> is a list of \<open>Nx\<close> rows of length \<open>Ny\<close>.
\<close>

datatype error = ZeroDivisionError | ValueError

type_synonym rfield = "real list list"
type_synonym cfield = "complex list list"

definition emap :: "('a \<Rightarrow> 'b) \<Rightarrow> 'a list list \<Rightarrow> 'b list list" where
  \<comment> \<open>a numpy ufunc applied to a 2-D array\<close>
  "emap f A = map (map f) A"

definition emap2 :: "('a \<Rightarrow> 'b \<Rightarrow> 'c) \<Rightarrow> 'a list list \<Rightarrow> 'b list list \<Rightarrow> 'c list list" where
  \<comment> \<open>a binary numpy ufunc applied to two 2-D arrays of the same shape\<close>
  "emap2 f A B = map2 (map2 f) A B"

definition bind_err :: "error + 'a \<Rightarrow> ('a \<Rightarrow> error + 'b) \<Rightarrow> error + 'b" where
  \<comment> \<open>sequencing of statements: an exception raised by the first ends the run\<close>
  "bind_err m f = (case m of Inl e \<Rightarrow> Inl e | Inr v \<Rightarrow> f v)"

definition py_div :: "real \<Rightarrow> real \<Rightarrow> error + real" where
  \<comment> \<open>Python's \<^verbatim>\<open>/\<close> on scalars: a zero divisor raises. The quotient is exact here; a
      float quotient that underflows to \<open>0.0\<close> is outside the model.\<close>
  "py_div p q = (if q = 0 then Inl ZeroDivisionError else Inr (p / q))"

section \<open>Grid definition (source lines 9 to 18)\<close>

definition linspace :: "real \<Rightarrow> real \<Rightarrow> int \<Rightarrow> error + real list" where
  \<comment> \<open>\<^verbatim>\<open>np.linspace(start, stop, num)\<close> with its default \<^verbatim>\<open>endpoint=True\<close>: \<^verbatim>\<open>num\<close> samples,
      the last of which is \<^verbatim>\<open>stop\<close>; a negative \<^verbatim>\<open>num\<close> raises \<^verbatim>\<open>ValueError\<close>. What numpy
      raises for a \<^verbatim>\<open>num\<close> too large for an array to be built is outside the model.\<close>
  "linspace start stop num =
     (if num < 0 then Inl ValueError
      else let divisor = num - 1;
               delta = stop - start;
               y = map (\<lambda>i. if divisor > 0 then real i * (delta / of_int divisor) + start
                              else real i * delta + start) [0..<nat num]
           in Inr (if num > 1 then y[nat num - 1 := stop] else y))"

definition meshgrid :: "real list \<Rightarrow> real list \<Rightarrow> rfield \<times> rfield" where
  \<comment> \<open>\<^verbatim>\<open>np.meshgrid(x, y, indexing='ij')\<close>: \<open>X[i][j] = x[i]\<close> and \<open>Y[i][j] = y[j]\<close>\<close>
  "meshgrid x y = (map (\<lambda>xi. map (\<lambda>yj. xi) y) x, map (\<lambda>xi. y) x)"

section \<open>Periodic potential (source lines 28 to 30)\<close>

definition potential_at :: "real \<Rightarrow> real \<Rightarrow> real \<Rightarrow> real \<Rightarrow> real" where
  \<comment> \<open>one entry of \<^verbatim>\<open>V0 * (np.cos(np.pi * X / a)**2 + np.cos(np.pi * Y / a)**2)\<close>, for \<open>a \<noteq> 0\<close>\<close>
  "potential_at V0 a x y = V0 * ((cos (pi * x / a))\<^sup>2 + (cos (pi * y / a))\<^sup>2)"

definition potential :: "real \<Rightarrow> real \<Rightarrow> rfield \<Rightarrow> rfield \<Rightarrow> rfield option" where
  \<comment> \<open>With \<open>a = 0\<close> numpy divides by zero: every \<^verbatim>\<open>np.pi * X / a\<close> is \<^verbatim>\<open>inf\<close> or \<^verbatim>\<open>nan\<close>, its
      cosine is \<^verbatim>\<open>nan\<close>, and so is every entry of \<^verbatim>\<open>V\<close>. No exception is raised.\<close>
  "potential V0 a X Y =
     (if a = 0 then None else Some (emap2 (potential_at V0 a) X Y))"

section \<open>Initial wavefunction (source lines 33 to 35)\<close>

definition gaussian :: "real \<Rightarrow> rfield \<Rightarrow> rfield \<Rightarrow> cfield option" where
  \<comment> \<open>\<^verbatim>\<open>np.exp(-(X**2 + Y**2) / (2 * sigma**2)).astype(np.complex128)\<close>. With \<open>sigma = 0\<close> the
      quotient is \<^verbatim>\<open>-inf\<close> where \<open>X\<^sup>2 + Y\<^sup>2 > 0\<close>, whose exponential is \<open>0\<close>, and \<^verbatim>\<open>nan\<close>
      where \<open>X\<^sup>2 + Y\<^sup>2 = 0\<close>. For \<open>sigma \<noteq> 0\<close> the exponential is the real one, which is
      never zero: the underflow of the float64 \<^verbatim>\<open>np.exp\<close> to \<open>0.0\<close> on a very negative
      argument (a very small \<open>sigma\<close>) is outside the model.\<close>
  "gaussian sigma X Y =
     (if 2 * sigma\<^sup>2 = 0
      then (if list_ex (list_ex (\<lambda>r. r = 0)) (emap2 (\<lambda>x y. x\<^sup>2 + y\<^sup>2) X Y) then None
            else Some (emap2 (\<lambda>x y. 0) X Y))
      else Some (emap2 (\<lambda>x y. complex_of_real (exp (- (x\<^sup>2 + y\<^sup>2) / (2 * sigma\<^sup>2)))) X Y))"

definition total :: "real list list \<Rightarrow> real" where
  \<comment> \<open>\<^verbatim>\<open>np.sum\<close> of a 2-D real array\<close>
  "total A = sum_list (map sum_list A)"

definition density :: "cfield \<Rightarrow> rfield" where
  \<comment> \<open>\<^verbatim>\<open>np.abs(psi)**2\<close>\<close>
  "density psi = emap (\<lambda>z. (cmod z)\<^sup>2) psi"

definition normalize :: "real \<Rightarrow> real \<Rightarrow> cfield \<Rightarrow> cfield option" where
  \<comment> \<open>\<^verbatim>\<open>psi /= np.sqrt(np.sum(np.abs(psi)**2) * dx * dy)\<close>. There is no guard: when the
      radicand is zero the division by zero makes the entries \<^verbatim>\<open>nan\<close> or \<^verbatim>\<open>inf\<close>, and
      when it is negative the square root is \<^verbatim>\<open>nan\<close> and so is every quotient. An array
      without entries stays as it is.\<close>
  "normalize dx dy psi =
     (let s = total (density psi) * dx * dy
      in if s > 0 then Some (emap (\<lambda>z. z / complex_of_real (sqrt s)) psi)
         else if concat psi = [] then Some psi
         else None)"

section \<open>Fourier-space wavenumbers (source lines 38 to 41)\<close>

definition fftfreq :: "int \<Rightarrow> real \<Rightarrow> error + real list" where
  \<comment> \<open>\<^verbatim>\<open>np.fft.fftfreq(n, d)\<close>: \<^verbatim>\<open>val = 1.0 / (n * d)\<close> is a Python scalar division and raises
      \<^verbatim>\<open>ZeroDivisionError\<close>; the integer bins are \<^verbatim>\<open>arange(0, (n-1)//2 + 1)\<close> followed by
      \<^verbatim>\<open>arange(-(n//2), 0)\<close>; a negative length raises \<^verbatim>\<open>ValueError\<close>.\<close>
  "fftfreq n d =
     bind_err (py_div 1 (of_int n * d)) (\<lambda>val.
       if n < 0 then Inl ValueError
       else Inr (map (\<lambda>i. of_int i * val) ([0 .. (n - 1) div 2] @ [- (n div 2) .. - 1])))"

definition wavenumbers :: "int \<Rightarrow> real \<Rightarrow> error + real list" where
  \<comment> \<open>\<^verbatim>\<open>2 * np.pi * np.fft.fftfreq(n, d=d)\<close>\<close>
  "wavenumbers n d = bind_err (fftfreq n d) (\<lambda>f. Inr (map (\<lambda>v. 2 * pi * v) f))"

definition K2_of :: "real list \<Rightarrow> real list \<Rightarrow> rfield" where
  \<comment> \<open>\<^verbatim>\<open>KX, KY = np.meshgrid(kx, ky, indexing='ij'); K2 = KX**2 + KY**2\<close>\<close>
  "K2_of kx ky = (case meshgrid kx ky of (KX, KY) \<Rightarrow> emap2 (\<lambda>p q. p\<^sup>2 + q\<^sup>2) KX KY)"

section \<open>Discrete Fourier transforms\<close>

text \<open>
  \<^verbatim>\<open>np.fft.fft2\<close> and \<^verbatim>\<open>np.fft.ifft2\<close> are library routines. They are modelled by the
  transform their documentation defines, for an array of shape \<open>(M, N)\<close>:
  \<open>A[k][l] = \<Sum>m \<Sum>n a[m][n] exp(-2\<pi>i (mk/M + nl/N))\<close> and
  \<open>a[m][n] = 1/(MN) \<Sum>k \<Sum>l A[k][l] exp(+2\<pi>i (mk/M + nl/N))\<close>, with \<open>cis t = exp (i t)\<close>.
  The script only transforms arrays of the grid's shape, which has at least one row and
  one column when the loop is reached; numpy rejects an array without entries.
\<close>

definition shape :: "'a list list \<Rightarrow> nat \<times> nat" where
  "shape A = (length A, (case A of [] \<Rightarrow> 0 | r # _ \<Rightarrow> length r))"

definition dft_kernel :: "nat \<Rightarrow> nat \<Rightarrow> nat \<Rightarrow> nat \<Rightarrow> nat \<Rightarrow> nat \<Rightarrow> real" where
  \<comment> \<open>the angle \<open>2\<pi> (mk/M + nl/N)\<close>\<close>
  "dft_kernel M N m n k l =
     2 * pi * (real m * real k / real M + real n * real l / real N)"

definition fft2 :: "cfield \<Rightarrow> cfield" where
  "fft2 A = (case shape A of (M, N) \<Rightarrow>
     map (\<lambda>k. map (\<lambda>l. \<Sum>m<M. \<Sum>n<N. A ! m ! n * cis (- dft_kernel M N m n k l)) [0..<N])
       [0..<M])"

definition ifft2 :: "cfield \<Rightarrow> cfield" where
  "ifft2 A = (case shape A of (M, N) \<Rightarrow>
     map (\<lambda>m. map (\<lambda>n. (\<Sum>k<M. \<Sum>l<N. A ! k ! l * cis (dft_kernel M N m n k l))
                         / of_nat (M * N)) [0..<N])
       [0..<M])"

section \<open>Time evolution (source lines 44 to 58)\<close>

definition half_step :: "rfield \<Rightarrow> real \<Rightarrow> real \<Rightarrow> cfield \<Rightarrow> cfield" where
  \<comment> \<open>\<^verbatim>\<open>psi *= np.exp(-1j * (V + g * np.abs(psi)**2) * dt / 2)\<close>; the right-hand side is
      evaluated on the old \<^verbatim>\<open>psi\<close> before the product is stored\<close>
  "half_step V g dt psi =
     emap2 (\<lambda>v z. z * exp (- \<i> * complex_of_real (v + g * (cmod z)\<^sup>2) * complex_of_real dt / 2))
       V psi"

definition kinetic_step :: "rfield \<Rightarrow> real \<Rightarrow> cfield \<Rightarrow> cfield" where
  \<comment> \<open>\<^verbatim>\<open>psi_k = np.fft.fft2(psi); psi_k *= np.exp(-1j * K2 * dt / 2); psi = np.fft.ifft2(psi_k)\<close>\<close>
  "kinetic_step K2 dt psi =
     (let psi_k = fft2 psi;
          psi_k = emap2 (\<lambda>k z. z * exp (- \<i> * complex_of_real k * complex_of_real dt / 2))
                    K2 psi_k
      in ifft2 psi_k)"

definition iteration ::
  "rfield option \<Rightarrow> rfield \<Rightarrow> real \<Rightarrow> real \<Rightarrow> real \<Rightarrow> real \<Rightarrow> cfield option \<Rightarrow> cfield option" where
  \<comment> \<open>one pass through the loop body, lines 46 to 58; a non-finite \<^verbatim>\<open>V\<close> or \<^verbatim>\<open>psi\<close> leaves
      \<^verbatim>\<open>psi\<close> non-finite, and nothing is raised\<close>
  "iteration V K2 g dt dx dy psi =
     (case (V, psi) of
        (Some V, Some psi) \<Rightarrow>
          (let psi = half_step V g dt psi;
               psi = kinetic_step K2 dt psi;
               psi = half_step V g dt psi
           in normalize dx dy psi)
      | _ \<Rightarrow> None)"

fun time_loop ::
  "nat \<Rightarrow> rfield option \<Rightarrow> rfield \<Rightarrow> real \<Rightarrow> real \<Rightarrow> real \<Rightarrow> real \<Rightarrow> cfield option \<Rightarrow> cfield option" where
  \<comment> \<open>\<^verbatim>\<open>for _ in range(steps)\<close>: the body runs a fixed number of times, with no exit\<close>
  "time_loop 0 V K2 g dt dx dy psi = psi"
| "time_loop (Suc n) V K2 g dt dx dy psi =
     time_loop n V K2 g dt dx dy (iteration V K2 g dt dx dy psi)"

section \<open>The script\<close>

record prepared =
  s_dx :: real
  s_dy :: real
  s_x :: "real list"
  s_y :: "real list"
  s_V :: "rfield option"
  s_psi :: "cfield option"
  s_K2 :: rfield

definition prepare :: "int \<Rightarrow> int \<Rightarrow> real \<Rightarrow> real \<Rightarrow> real \<Rightarrow> real \<Rightarrow> real \<Rightarrow> error + prepared" where
  \<comment> \<open>lines 9 to 41, in the order of the script: the first exception ends the run\<close>
  "prepare Nx Ny Lx Ly V0 a sigma =
     bind_err (py_div Lx (of_int Nx)) (\<lambda>dx.
     bind_err (py_div Ly (of_int Ny)) (\<lambda>dy.
     bind_err (linspace (- Lx / 2) (Lx / 2) Nx) (\<lambda>x.
     bind_err (linspace (- Ly / 2) (Ly / 2) Ny) (\<lambda>y.
       (case meshgrid x y of (X, Y) \<Rightarrow>
          let V = potential V0 a X Y;
              psi = Option.bind (gaussian sigma X Y) (normalize dx dy)
          in bind_err (wavenumbers Nx dx) (\<lambda>kx.
             bind_err (wavenumbers Ny dy) (\<lambda>ky.
               Inr \<lparr>s_dx = dx, s_dy = dy, s_x = x, s_y = y, s_V = V, s_psi = psi,
                    s_K2 = K2_of kx ky\<rparr>)))))))"

definition psi_after ::
  "int \<Rightarrow> int \<Rightarrow> real \<Rightarrow> real \<Rightarrow> real \<Rightarrow> real \<Rightarrow> real \<Rightarrow> real \<Rightarrow> real \<Rightarrow> nat
     \<Rightarrow> error + cfield option" where
  \<comment> \<open>the value of \<^verbatim>\<open>psi\<close> after line 41 and \<open>t\<close> passes through the loop body\<close>
  "psi_after Nx Ny Lx Ly dt g V0 a sigma t =
     (case prepare Nx Ny Lx Ly V0 a sigma of
        Inl e \<Rightarrow> Inl e
      | Inr s \<Rightarrow> Inr (time_loop t (s_V s) (s_K2 s) g dt (s_dx s) (s_dy s) (s_psi s)))"

definition gpe ::
  "int \<Rightarrow> int \<Rightarrow> real \<Rightarrow> real \<Rightarrow> real \<Rightarrow> real \<Rightarrow> real \<Rightarrow> real \<Rightarrow> real \<Rightarrow> int
     \<Rightarrow> error + rfield option" where
  \<comment> \<open>the script up to line 61: the density handed to the plot; \<^verbatim>\<open>range(steps)\<close> is empty for
      a negative \<^verbatim>\<open>steps\<close>\<close>
  "gpe Nx Ny Lx Ly dt g V0 a sigma steps =
     (case psi_after Nx Ny Lx Ly dt g V0 a sigma (nat steps) of
        Inl e \<Rightarrow> Inl e
      | Inr psi \<Rightarrow> Inr (map_option density psi))"

section \<open>Auxiliary definitions for the proofs\<close>

definition the_grid :: "real \<Rightarrow> int \<Rightarrow> real list" where
  \<comment> \<open>the coordinate array \<^verbatim>\<open>np.linspace(-L/2, L/2, n)\<close> when no exception is raised\<close>
  "the_grid L n = (case linspace (- L / 2) (L / 2) n of Inr xs \<Rightarrow> xs | Inl e \<Rightarrow> [])"

definition the_waves :: "int \<Rightarrow> real \<Rightarrow> real list" where
  \<comment> \<open>the wavenumber array \<^verbatim>\<open>2 * np.pi * np.fft.fftfreq(n, d=d)\<close> when no exception is raised\<close>
  "the_waves n d = (case wavenumbers n d of Inr ks \<Rightarrow> ks | Inl e \<Rightarrow> [])"

definition rect :: "nat \<Rightarrow> nat \<Rightarrow> 'a list list \<Rightarrow> bool" where
  \<comment> \<open>an array of shape \<open>(M, N)\<close>: \<open>M\<close> rows, each of length \<open>N\<close>\<close>
  "rect M N A \<longleftrightarrow> length A = M \<and> list_all (\<lambda>r. length r = N) A"

definition standard_bin :: "int \<Rightarrow> nat \<Rightarrow> int" where
  \<comment> \<open>the standard FFT layout of \<open>n\<close> bins, as the specification words it: bin \<open>i\<close> holds
      the integer frequency \<open>i\<close> in the first half (zero, then the positive ones) and
      \<open>i - n\<close> in the second half (the negative ones)\<close>
  "standard_bin n i = (if 2 * int i < n then int i else int i - n)"

definition standard_freqs :: "int \<Rightarrow> real \<Rightarrow> real list" where
  \<comment> \<open>the frequencies of the standard layout for \<open>n\<close> samples of spacing \<open>d\<close>\<close>
  "standard_freqs n d = map (\<lambda>i. of_int (standard_bin n i) / (of_int n * d)) [0..<nat n]"

definition fft_ordered :: "real list \<Rightarrow> bool" where
  \<comment> \<open>the bin order in the specification's words: zero first, then the positive
      frequencies ascending, then the negative frequencies, whose magnitudes descend\<close>
  "fft_ordered k \<longleftrightarrow>
     k ! 0 = 0
     \<and> (\<forall>i<length k. 0 < i \<and> 2 * i < length k \<longrightarrow> 0 < k ! i \<and> k ! (i - 1) < k ! i)
     \<and> (\<forall>i<length k. length k \<le> 2 * i \<longrightarrow>
           k ! i < 0 \<and> (i + 1 < length k \<longrightarrow> \<bar>k ! (i + 1)\<bar> < \<bar>k ! i\<bar>))"

definition wave :: "nat \<Rightarrow> int \<Rightarrow> nat \<Rightarrow> complex" where
  \<comment> \<open>the \<open>k\<close>-th sample of the discrete wave of integer frequency \<open>d\<close> on \<open>N\<close> points\<close>
  "wave N d k = cis (2 * pi * (real_of_int d * real k / real N))"

definition kern :: "nat \<Rightarrow> nat \<Rightarrow> (nat \<Rightarrow> nat \<Rightarrow> complex) \<Rightarrow> int \<Rightarrow> int \<Rightarrow> complex" where
  \<comment> \<open>the convolution kernel of a Fourier multiplier \<open>G\<close>: the inverse transform of \<open>G\<close>\<close>
  "kern M N G a b = (\<Sum>k<M. \<Sum>l<N. G k l * (wave M a k * wave N b l)) / of_nat (M * N)"

definition negate_bin :: "nat \<Rightarrow> nat \<Rightarrow> nat" where
  \<comment> \<open>the bin that holds the opposite frequency\<close>
  "negate_bin M k = (M - k) mod M"

definition point_symmetric :: "nat \<Rightarrow> nat \<Rightarrow> 'a list list \<Rightarrow> bool" where
  \<comment> \<open>an array of shape \<open>(M, N)\<close> that takes the same value at a grid point and at its
      mirror image through the centre of the grid\<close>
  "point_symmetric M N A \<longleftrightarrow> (\<forall>i<M. \<forall>j<N. A ! (M - 1 - i) ! (N - 1 - j) = A ! i ! j)"

definition vanishes :: "nat \<Rightarrow> nat \<Rightarrow> complex list list \<Rightarrow> bool" where
  \<comment> \<open>every entry of an array of shape \<open>(M, N)\<close> is zero\<close>
  "vanishes M N A \<longleftrightarrow> (\<forall>i<M. \<forall>j<N. A ! i ! j = 0)"

section \<open>What the setup raises, and what it builds\<close>

lemma prepare_eq:
  "prepare Nx Ny Lx Ly V0 a sigma =
    (if Nx = 0 \<or> Ny = 0 then Inl ZeroDivisionError
     else if Nx < 0 \<or> Ny < 0 then Inl ValueError
     else if Lx = 0 \<or> Ly = 0 then Inl ZeroDivisionError
     else Inr \<lparr>s_dx = Lx / of_int Nx, s_dy = Ly / of_int Ny,
               s_x = the_grid Lx Nx, s_y = the_grid Ly Ny,
               s_V = potential V0 a (fst (meshgrid (the_grid Lx Nx) (the_grid Ly Ny)))
                       (snd (meshgrid (the_grid Lx Nx) (the_grid Ly Ny))),
               s_psi = Option.bind
                        (gaussian sigma (fst (meshgrid (the_grid Lx Nx) (the_grid Ly Ny)))
                           (snd (meshgrid (the_grid Lx Nx) (the_grid Ly Ny))))
                        (normalize (Lx / of_int Nx) (Ly / of_int Ny)),
               s_K2 = K2_of (the_waves Nx (Lx / of_int Nx)) (the_waves Ny (Ly / of_int Ny))\<rparr>)"
proof -
  consider "Nx = 0" | "Nx \<noteq> 0" "Ny = 0" | "Nx \<noteq> 0" "Ny \<noteq> 0" "Nx < 0"
    | "Nx > 0" "Ny < 0" | "Nx > 0" "Ny > 0" "Lx = 0" | "Nx > 0" "Ny > 0" "Lx \<noteq> 0" "Ly = 0"
    | "Nx > 0" "Ny > 0" "Lx \<noteq> 0" "Ly \<noteq> 0"
    by linarith
  then show ?thesis
  proof cases
    case 1 then show ?thesis by (simp add: prepare_def bind_err_def py_div_def)
  next
    case 2 then show ?thesis by (simp add: prepare_def bind_err_def py_div_def)
  next
    case 3 then show ?thesis by (simp add: prepare_def bind_err_def py_div_def linspace_def)
  next
    case 4 then show ?thesis by (simp add: prepare_def bind_err_def py_div_def linspace_def Let_def)
  next
    case 5 then show ?thesis
      by (simp add: prepare_def bind_err_def py_div_def linspace_def Let_def wavenumbers_def fftfreq_def
          split: prod.split)
  next
    case 6 then show ?thesis
      by (simp add: prepare_def bind_err_def py_div_def linspace_def Let_def wavenumbers_def fftfreq_def
          split: prod.split)
  next
    case 7 then show ?thesis
      by (simp add: prepare_def bind_err_def py_div_def linspace_def Let_def wavenumbers_def fftfreq_def
          the_grid_def the_waves_def split: prod.split)
  qed
qed

lemma gpe_error_iff:
  "gpe Nx Ny Lx Ly dt g V0 a sigma steps = Inl e \<longleftrightarrow> prepare Nx Ny Lx Ly V0 a sigma = Inl e"
  by (simp add: gpe_def psi_after_def split: sum.split)

text \<open>
  Claim C3 (the code departs from it). The claim asks for \<open>Nx\<close> points of constant step
  \<open>dx = Lx / Nx\<close> on the half-open interval, with \<open>+Lx/2\<close> not a grid point. The script
  computes \<open>dx = Lx / Nx\<close> and comments it as the spatial step, but builds \<open>x\<close> with
  \<^verbatim>\<open>np.linspace(-Lx/2, Lx/2, Nx)\<close>, whose default includes the endpoint. For
  \<open>Nx = Ny = 4\<close> and \<open>Lx = Ly = 10\<close> the script's \<open>dx\<close> is \<open>5/2\<close>, while its grid is
  \<open>-5, -5/3, 5/3, 5\<close>: consecutive points differ by \<open>10/3\<close> and the last point is \<open>+Lx/2\<close>.
\<close>

theorem grid_includes_endpoint:
  "(case prepare 4 4 10 10 10 2 1 of
      Inl e \<Rightarrow> False
    | Inr s \<Rightarrow> s_dx s = 5 / 2 \<and> s_x s = [- 5, - (5 / 3), 5 / 3, 5]
               \<and> s_x s ! 1 - s_x s ! 0 = 10 / 3 \<and> last (s_x s) = 10 / 2)"
  by (simp add: prepare_eq the_grid_def linspace_def Let_def upt_rec)

text \<open>
  Claim C4, as stated, fails: the script has no validation and no \<open>InvalidConfiguration\<close>
  error. A negative \<open>sigma\<close>, \<open>sigma = 0\<close>, a zero period \<open>a\<close>, a negative \<open>Lx\<close> and a
  negative \<open>Ly\<close> all run to the end of the script and hand a result to the plot, without
  any exception.
\<close>

theorem invalid_configuration_counterexample:
  "\<not> isl (gpe 4 4 10 10 (1 / 5000) 1 10 2 (- 1) 2000)
   \<and> \<not> isl (gpe 4 4 10 10 (1 / 5000) 1 10 2 0 2000)
   \<and> \<not> isl (gpe 4 4 10 10 (1 / 5000) 1 10 0 1 2000)
   \<and> \<not> isl (gpe 4 4 (- 10) 10 (1 / 5000) 1 10 2 1 2000)
   \<and> \<not> isl (gpe 4 4 10 (- 10) (1 / 5000) 1 10 2 1 2000)"
  by (simp add: gpe_def psi_after_def prepare_eq)

text \<open>
  Claim C4, amended. Whenever \<open>Nx\<close> or \<open>Ny\<close> is a non-positive integer, or \<open>Lx\<close> or \<open>Ly\<close>
  is zero, the script raises an exception during the setup (lines 13 to 39), before any
  pass through the loop: the exception of the run is the one the setup raises. It is a
  built-in exception, not an \<open>InvalidConfiguration\<close> error, which the script does not
  have; in particular \<open>Nx = 0\<close> raises \<^verbatim>\<open>ZeroDivisionError\<close>, at line 13. The script has
  no check of \<open>Lx\<close>, \<open>Ly\<close>, \<open>a\<close> or \<open>sigma\<close>: the runs above, with a negative \<open>Lx\<close> or
  \<open>Ly\<close>, with \<open>a = 0\<close> and with a non-positive \<open>sigma\<close>, raise nothing.
\<close>

theorem setup_exceptions:
  "(Nx = 0 \<longrightarrow>
      prepare Nx Ny Lx Ly V0 a sigma = Inl ZeroDivisionError
      \<and> gpe Nx Ny Lx Ly dt g V0 a sigma steps = Inl ZeroDivisionError)
   \<and> (Nx \<le> 0 \<or> Ny \<le> 0 \<or> Lx = 0 \<or> Ly = 0 \<longrightarrow>
      (\<exists>e. prepare Nx Ny Lx Ly V0 a sigma = Inl e
         \<and> gpe Nx Ny Lx Ly dt g V0 a sigma steps = Inl e))"
proof (intro conjI impI)
  assume "Nx = 0"
  then show "prepare Nx Ny Lx Ly V0 a sigma = Inl ZeroDivisionError"
    "gpe Nx Ny Lx Ly dt g V0 a sigma steps = Inl ZeroDivisionError"
    by (simp_all add: gpe_error_iff prepare_eq)
next
  assume "Nx \<le> 0 \<or> Ny \<le> 0 \<or> Lx = 0 \<or> Ly = 0"
  then have "\<exists>e. prepare Nx Ny Lx Ly V0 a sigma = Inl e"
    by (auto simp add: prepare_eq)
  then show "\<exists>e. prepare Nx Ny Lx Ly V0 a sigma = Inl e
         \<and> gpe Nx Ny Lx Ly dt g V0 a sigma steps = Inl e"
    by (auto simp add: gpe_error_iff)
qed

theorem setup_exceptions_witness:
  "gpe 0 256 10 10 (1 / 5000) 1 10 2 1 2000 = Inl ZeroDivisionError
   \<and> (\<exists>e. prepare (- 1) 256 10 10 10 2 1 = Inl e
         \<and> gpe (- 1) 256 10 10 (1 / 5000) 1 10 2 1 2000 = Inl e)
   \<and> (\<exists>e. prepare 256 256 0 10 10 2 1 = Inl e
         \<and> gpe 256 256 0 10 (1 / 5000) 1 10 2 1 2000 = Inl e)"
  using setup_exceptions [of 0 256 10 10 10 2 1 "1 / 5000" 1 2000]
    setup_exceptions [of "- 1" 256 10 10 10 2 1 "1 / 5000" 1 2000]
    setup_exceptions [of 256 256 0 10 10 2 1 "1 / 5000" 1 2000]
  by simp

section \<open>Shapes and indexing\<close>

lemma rect_length: "rect M N A \<Longrightarrow> length A = M"
  by (simp add: rect_def)

lemma rect_row: "rect M N A \<Longrightarrow> i < M \<Longrightarrow> length (A ! i) = N"
  by (simp add: rect_def list_all_length)

lemma rect_ext:
  assumes "rect M N A" "rect M N B" "\<And>i j. i < M \<Longrightarrow> j < N \<Longrightarrow> A ! i ! j = B ! i ! j"
  shows "A = B"
proof (rule nth_equalityI)
  show "length A = length B" using assms by (simp add: rect_length)
next
  fix i assume "i < length A"
  then have i: "i < M" using assms(1) by (simp add: rect_length)
  show "A ! i = B ! i"
    by (rule nth_equalityI) (use i assms in \<open>simp_all add: rect_row\<close>)
qed

lemma rect_shape: "rect M N A \<Longrightarrow> 0 < M \<Longrightarrow> shape A = (M, N)"
  by (cases A) (auto simp: rect_def shape_def)

lemma rect_emap [simp]: "rect M N (emap f A) = rect M N A"
  by (simp add: rect_def emap_def list_all_length)

lemma emap_nth: "rect M N A \<Longrightarrow> i < M \<Longrightarrow> j < N \<Longrightarrow> emap f A ! i ! j = f (A ! i ! j)"
  by (simp add: emap_def rect_length rect_row)

lemma rect_emap2: "rect M N A \<Longrightarrow> rect M N B \<Longrightarrow> rect M N (emap2 f A B)"
  by (simp add: rect_def emap2_def list_all_length)

lemma emap2_nth:
  "rect M N A \<Longrightarrow> rect M N B \<Longrightarrow> i < M \<Longrightarrow> j < N \<Longrightarrow> emap2 f A B ! i ! j = f (A ! i ! j) (B ! i ! j)"
  by (simp add: emap2_def rect_length rect_row)

lemma rect_meshgrid:
  "rect (length x) (length y) (fst (meshgrid x y))" "rect (length x) (length y) (snd (meshgrid x y))"
  by (simp_all add: meshgrid_def rect_def list_all_length)

lemma meshgrid_nth:
  "i < length x \<Longrightarrow> j < length y \<Longrightarrow> fst (meshgrid x y) ! i ! j = x ! i"
  "i < length x \<Longrightarrow> j < length y \<Longrightarrow> snd (meshgrid x y) ! i ! j = y ! j"
  by (simp_all add: meshgrid_def)

lemma rect_nonempty: "rect M N A \<Longrightarrow> 0 < M \<Longrightarrow> 0 < N \<Longrightarrow> concat A \<noteq> []"
  by (cases A) (auto simp: rect_def)

lemma total_sum: "rect M N A \<Longrightarrow> total A = (\<Sum>i<M. \<Sum>j<N. A ! i ! j)"
proof -
  assume r: "rect M N A"
  have "total A = (\<Sum>i<length A. sum_list (A ! i))"
    by (simp add: total_def sum_list_sum_nth atLeast0LessThan)
  also have "\<dots> = (\<Sum>i<M. \<Sum>j<N. A ! i ! j)"
    using r by (intro sum.cong) (auto simp: rect_length rect_row sum_list_sum_nth atLeast0LessThan)
  finally show ?thesis .
qed

lemma rect_fft2: "rect M N A \<Longrightarrow> rect M N (fft2 A)"
proof (cases "M = 0")
  case True
  assume "rect M N A"
  with True show ?thesis by (simp add: rect_def fft2_def shape_def)
next
  case False
  assume "rect M N A"
  with False have "shape A = (M, N)" by (simp add: rect_shape)
  then show ?thesis by (simp add: fft2_def rect_def list_all_length)
qed

lemma rect_ifft2: "rect M N A \<Longrightarrow> rect M N (ifft2 A)"
proof (cases "M = 0")
  case True
  assume "rect M N A"
  with True show ?thesis by (simp add: rect_def ifft2_def shape_def)
next
  case False
  assume "rect M N A"
  with False have "shape A = (M, N)" by (simp add: rect_shape)
  then show ?thesis by (simp add: ifft2_def rect_def list_all_length)
qed

lemma fft2_nth:
  "rect M N A \<Longrightarrow> k < M \<Longrightarrow> l < N \<Longrightarrow>
   fft2 A ! k ! l = (\<Sum>m<M. \<Sum>n<N. A ! m ! n * cis (- dft_kernel M N m n k l))"
  by (simp add: fft2_def rect_shape)

lemma ifft2_nth:
  "rect M N A \<Longrightarrow> m < M \<Longrightarrow> n < N \<Longrightarrow>
   ifft2 A ! m ! n = (\<Sum>k<M. \<Sum>l<N. A ! k ! l * cis (dft_kernel M N m n k l)) / of_nat (M * N)"
  by (simp add: ifft2_def rect_shape)

lemma rect_half_step: "rect M N V \<Longrightarrow> rect M N psi \<Longrightarrow> rect M N (half_step V g dt psi)"
  by (simp add: half_step_def rect_emap2)

lemma rect_kinetic_step: "rect M N K2 \<Longrightarrow> rect M N psi \<Longrightarrow> rect M N (kinetic_step K2 dt psi)"
  by (simp add: kinetic_step_def Let_def rect_emap2 rect_fft2 rect_ifft2)

lemma rect_density [simp]: "rect M N (density psi) = rect M N psi"
  by (simp add: density_def)

lemma rect_normalize: "rect M N psi \<Longrightarrow> normalize dx dy psi = Some psi' \<Longrightarrow> rect M N psi'"
  by (auto simp: normalize_def Let_def split: if_splits)

lemma length_the_grid: "0 \<le> n \<Longrightarrow> length (the_grid L n) = nat n"
  by (simp add: the_grid_def linspace_def Let_def)

lemma the_grid_nth:
  assumes "2 \<le> n" "i < nat n"
  shows "the_grid L n ! i = - L / 2 + real i * (L / real_of_int (n - 1))"
proof (cases "i = nat n - 1")
  case True
  then have "real i = real_of_int (n - 1)" using assms by auto
  then show ?thesis using assms True
    by (simp add: the_grid_def linspace_def Let_def)
next
  case False
  then show ?thesis using assms
    by (simp add: the_grid_def linspace_def Let_def)
qed

lemma the_grid_one: "the_grid L 1 = [- L / 2]"
  by (simp add: the_grid_def linspace_def Let_def)

lemma the_grid_reflect:
  assumes "0 < n" "i < nat n"
  shows "(the_grid L n ! (nat n - 1 - i))\<^sup>2 = (the_grid L n ! i)\<^sup>2"
proof (cases "n = 1")
  case True
  then show ?thesis using assms by (simp add: the_grid_one)
next
  case False
  then have n: "2 \<le> n" using assms by simp
  have "real (nat n - 1 - i) = real_of_int (n - 1) - real i"
    using assms n by (simp add: of_nat_diff)
  then have "the_grid L n ! (nat n - 1 - i) = - (the_grid L n ! i)"
    using assms n by (simp add: the_grid_nth field_simps)
  then show ?thesis by simp
qed

section \<open>The wavenumber arrays\<close>

lemma the_waves_eq:
  "0 < n \<Longrightarrow> d \<noteq> 0 \<Longrightarrow>
   the_waves n d = map (\<lambda>v. 2 * pi * v)
     (map (\<lambda>i. of_int i * (1 / (of_int n * d))) ([0 .. (n - 1) div 2] @ [- (n div 2) .. - 1]))"
  by (simp add: the_waves_def wavenumbers_def fftfreq_def bind_err_def py_div_def)

lemma wavenumbers_the_waves:
  "0 < n \<Longrightarrow> d \<noteq> 0 \<Longrightarrow> wavenumbers n d = Inr (the_waves n d)"
  by (simp add: the_waves_def wavenumbers_def fftfreq_def bind_err_def py_div_def)

lemma length_the_waves: "0 < n \<Longrightarrow> d \<noteq> 0 \<Longrightarrow> length (the_waves n d) = nat n"
  by (simp add: the_waves_eq)

lemma the_waves_nth:
  assumes "0 < n" "d \<noteq> 0" "i < nat n"
  shows "the_waves n d ! i = 2 * pi * (of_int (standard_bin n i) / (of_int n * d))"
proof -
  let ?p = "[0 .. (n - 1) div 2]" and ?q = "[- (n div 2) .. - 1]"
  have lp: "length ?p = nat ((n - 1) div 2 + 1)" by simp
  have len: "i < length (?p @ ?q)" using assms by simp
  have "(?p @ ?q) ! i = standard_bin n i"
  proof (cases "2 * int i < n")
    case True
    then have "i < length ?p" by simp
    then have "(?p @ ?q) ! i = ?p ! i" by (simp add: nth_append)
    also have "\<dots> = int i" using True by (subst nth_upto) simp_all
    finally show ?thesis using True by (simp add: standard_bin_def)
  next
    case False
    then have ge: "\<not> i < length ?p" by simp
    then have "(?p @ ?q) ! i = ?q ! (i - length ?p)" by (simp add: nth_append)
    also have "\<dots> = - (n div 2) + int (i - length ?p)"
    proof (rule nth_upto)
      show "- (n div 2) + int (i - length ?p) \<le> - 1"
        using False assms ge by simp
    qed
    also have "\<dots> = int i - n" using False assms ge by simp
    finally show ?thesis using False by (simp add: standard_bin_def)
  qed
  moreover have "the_waves n d ! i
      = 2 * pi * (of_int ((?p @ ?q) ! i) * (1 / (of_int n * d)))"
    unfolding the_waves_eq [OF assms(1,2)] map_map using len by (subst nth_map) simp_all
  ultimately show ?thesis by simp
qed

lemma the_waves_standard:
  assumes "0 < n" "d \<noteq> 0"
  shows "the_waves n d = map (\<lambda>f. 2 * pi * f) (standard_freqs n d)"
  by (rule nth_equalityI)
     (use assms in \<open>simp_all add: length_the_waves standard_freqs_def the_waves_nth\<close>)

lemma the_waves_ordered:
  assumes "0 < n" "0 < d"
  shows "fft_ordered (the_waves n d)"
proof -
  define c where "c = 2 * pi / (real_of_int n * d)"
  have len: "length (the_waves n d) = nat n" using assms by (simp add: length_the_waves)
  have c: "0 < c" using assms by (simp add: c_def)
  have nth: "the_waves n d ! i = c * of_int (standard_bin n i)"
    if "i < nat n" for i using that assms by (simp add: the_waves_nth c_def)
  have pos: "0 < k \<Longrightarrow> 0 < c * of_int k"
   and neg: "k < 0 \<Longrightarrow> c * of_int k < 0"
   and mono: "k < l \<Longrightarrow> c * of_int k < c * of_int l" for k l :: int
    using c by (simp_all add: mult_less_0_iff)
  have lo: "standard_bin n i = int i" if "2 * i < nat n" for i
    using that by (auto simp add: standard_bin_def)
  have hi: "standard_bin n i = int i - n" if "nat n \<le> 2 * i" for i
    using that by (auto simp add: standard_bin_def)
  show ?thesis
    unfolding fft_ordered_def len
  proof (intro conjI allI impI)
    show "the_waves n d ! 0 = 0" using assms by (simp add: nth standard_bin_def)
  next
    fix i assume i: "i < nat n" "0 < i \<and> 2 * i < nat n"
    then have "0 < c * of_int (int i)" by (intro pos) simp
    then show "0 < the_waves n d ! i" using i by (simp add: nth lo)
  next
    fix i assume i: "i < nat n" "0 < i \<and> 2 * i < nat n"
    then have "c * of_int (int (i - 1)) < c * of_int (int i)" by (intro mono) simp
    moreover have "i - 1 < nat n" "2 * (i - 1) < nat n" using i by auto
    then have "the_waves n d ! (i - 1) = c * of_int (int (i - 1))"
      by (simp only: nth lo)
    moreover have "the_waves n d ! i = c * of_int (int i)"
      using i by (simp only: nth lo)
    ultimately show "the_waves n d ! (i - 1) < the_waves n d ! i" by simp
  next
    fix i assume i: "i < nat n" "nat n \<le> 2 * i"
    then have "c * of_int (int i - n) < 0" by (intro neg) simp
    then show "the_waves n d ! i < 0" using i by (simp add: nth hi)
  next
    fix i assume i: "i < nat n" "nat n \<le> 2 * i" "i + 1 < nat n"
    then have "c * of_int (int i - n) < c * of_int (int (i + 1) - n)"
      "c * of_int (int (i + 1) - n) < 0"
      by (intro mono neg, simp)+
    moreover have "nat n \<le> 2 * (i + 1)" using i by simp
    then have "the_waves n d ! (i + 1) = c * of_int (int (i + 1) - n)"
      using i by (simp only: nth hi)
    moreover have "the_waves n d ! i = c * of_int (int i - n)"
      using i by (simp only: nth hi)
    ultimately have "the_waves n d ! i < the_waves n d ! (i + 1)" "the_waves n d ! (i + 1) < 0"
      by simp_all
    then show "\<bar>the_waves n d ! (i + 1)\<bar> < \<bar>the_waves n d ! i\<bar>" by simp
  qed
qed

lemma rect_K2_of: "rect (length kx) (length ky) (K2_of kx ky)"
  by (simp add: K2_of_def rect_emap2 rect_meshgrid split: prod.split)
     (metis fst_conv snd_conv rect_emap2 rect_meshgrid)

lemma K2_of_nth:
  "i < length kx \<Longrightarrow> j < length ky \<Longrightarrow> K2_of kx ky ! i ! j = (kx ! i)\<^sup>2 + (ky ! j)\<^sup>2"
  by (simp add: K2_of_def meshgrid_def emap2_def)

section \<open>The prepared state\<close>

lemma prepare_Inr:
  assumes "prepare Nx Ny Lx Ly V0 a sigma = Inr s"
  shows "0 < Nx" "0 < Ny" "Lx \<noteq> 0" "Ly \<noteq> 0"
    "s_dx s = Lx / of_int Nx" "s_dy s = Ly / of_int Ny"
    "s_x s = the_grid Lx Nx" "s_y s = the_grid Ly Ny"
    "s_V s = potential V0 a (fst (meshgrid (s_x s) (s_y s))) (snd (meshgrid (s_x s) (s_y s)))"
    "s_psi s = Option.bind (gaussian sigma (fst (meshgrid (s_x s) (s_y s)))
                  (snd (meshgrid (s_x s) (s_y s)))) (normalize (s_dx s) (s_dy s))"
    "s_K2 s = K2_of (the_waves Nx (s_dx s)) (the_waves Ny (s_dy s))"
  using assms by (auto simp: prepare_eq split: if_splits)

lemma prepare_Inr_ex:
  assumes "0 < Nx" "0 < Ny" "Lx \<noteq> 0" "Ly \<noteq> 0"
  shows "\<exists>s. prepare Nx Ny Lx Ly V0 a sigma = Inr s"
  using assms by (simp add: prepare_eq)

lemma prepare_lengths:
  assumes "prepare Nx Ny Lx Ly V0 a sigma = Inr s"
  shows "length (s_x s) = nat Nx" "length (s_y s) = nat Ny" "s_dx s \<noteq> 0" "s_dy s \<noteq> 0"
    "rect (nat Nx) (nat Ny) (fst (meshgrid (s_x s) (s_y s)))"
    "rect (nat Nx) (nat Ny) (snd (meshgrid (s_x s) (s_y s)))"
    "rect (nat Nx) (nat Ny) (s_K2 s)"
proof -
  note p = prepare_Inr [OF assms]
  show x: "length (s_x s) = nat Nx" and y: "length (s_y s) = nat Ny"
    using p by (simp_all add: length_the_grid)
  show d: "s_dx s \<noteq> 0" "s_dy s \<noteq> 0" using p by simp_all
  show "rect (nat Nx) (nat Ny) (fst (meshgrid (s_x s) (s_y s)))"
    "rect (nat Nx) (nat Ny) (snd (meshgrid (s_x s) (s_y s)))"
    using rect_meshgrid [of "s_x s" "s_y s"] x y by simp_all
  show "rect (nat Nx) (nat Ny) (s_K2 s)"
    using rect_K2_of [of "the_waves Nx (s_dx s)" "the_waves Ny (s_dy s)"] p(1,2,11) d
    by (simp add: length_the_waves)
qed

text \<open>
  Claim C6. On a grid of positive sizes and lengths the setup raises nothing, and the
  arrays \<open>kx\<close> and \<open>ky\<close> it computes are \<open>2\<pi>\<close> times the standard FFT frequencies
  for \<open>Nx\<close> samples of spacing \<open>dx\<close> (for \<open>Ny\<close> samples of spacing \<open>dy\<close>): bin \<open>0\<close> is
  zero, the positive frequencies follow in ascending order, then the negative ones, from
  the largest magnitude down to the smallest. Every entry of \<open>K2\<close> is
  \<open>kx[i]\<^sup>2 + ky[j]\<^sup>2\<close>, a non-negative real.
\<close>

theorem wavenumbers_standard_layout:
  assumes "0 < Nx" "0 < Ny" "0 < Lx" "0 < Ly"
  shows "\<exists>s kx ky. prepare Nx Ny Lx Ly V0 a sigma = Inr s
     \<and> wavenumbers Nx (s_dx s) = Inr kx \<and> wavenumbers Ny (s_dy s) = Inr ky
     \<and> kx = map (\<lambda>f. 2 * pi * f) (standard_freqs Nx (s_dx s))
     \<and> ky = map (\<lambda>f. 2 * pi * f) (standard_freqs Ny (s_dy s))
     \<and> fft_ordered kx \<and> fft_ordered ky
     \<and> s_K2 s = K2_of kx ky \<and> rect (nat Nx) (nat Ny) (s_K2 s)
     \<and> (\<forall>i<nat Nx. \<forall>j<nat Ny.
           s_K2 s ! i ! j = (kx ! i)\<^sup>2 + (ky ! j)\<^sup>2 \<and> 0 \<le> s_K2 s ! i ! j)"
proof -
  obtain s where s: "prepare Nx Ny Lx Ly V0 a sigma = Inr s"
    using prepare_Inr_ex [of Nx Ny Lx Ly V0 a sigma] assms by auto
  note p = prepare_Inr [OF s] and l = prepare_lengths [OF s]
  have d: "0 < s_dx s" "0 < s_dy s" using p assms by simp_all
  let ?kx = "the_waves Nx (s_dx s)" and ?ky = "the_waves Ny (s_dy s)"
  have len: "length ?kx = nat Nx" "length ?ky = nat Ny"
    using assms d by (simp_all add: length_the_waves)
  have "wavenumbers Nx (s_dx s) = Inr ?kx" "wavenumbers Ny (s_dy s) = Inr ?ky"
    using assms d by (simp_all add: wavenumbers_the_waves)
  moreover have "?kx = map (\<lambda>f. 2 * pi * f) (standard_freqs Nx (s_dx s))"
    "?ky = map (\<lambda>f. 2 * pi * f) (standard_freqs Ny (s_dy s))"
    using assms d by (simp_all add: the_waves_standard)
  moreover have "fft_ordered ?kx" "fft_ordered ?ky"
    using assms d by (simp_all add: the_waves_ordered)
  moreover have "\<forall>i<nat Nx. \<forall>j<nat Ny.
      s_K2 s ! i ! j = (?kx ! i)\<^sup>2 + (?ky ! j)\<^sup>2 \<and> 0 \<le> s_K2 s ! i ! j"
    using len by (simp add: p(11) K2_of_nth)
  ultimately show ?thesis using s p(11) l(7) by blast
qed

theorem wavenumbers_standard_layout_witness:
  "\<exists>s kx ky. prepare 4 4 10 10 10 2 1 = Inr s
     \<and> wavenumbers 4 (s_dx s) = Inr kx \<and> wavenumbers 4 (s_dy s) = Inr ky
     \<and> kx = map (\<lambda>f. 2 * pi * f) (standard_freqs 4 (s_dx s))
     \<and> ky = map (\<lambda>f. 2 * pi * f) (standard_freqs 4 (s_dy s))
     \<and> fft_ordered kx \<and> fft_ordered ky
     \<and> s_K2 s = K2_of kx ky \<and> rect (nat 4) (nat 4) (s_K2 s)
     \<and> (\<forall>i<nat 4. \<forall>j<nat 4.
           s_K2 s ! i ! j = (kx ! i)\<^sup>2 + (ky ! j)\<^sup>2 \<and> 0 \<le> s_K2 s ! i ! j)"
  by (rule wavenumbers_standard_layout) simp_all

section \<open>The potential\<close>

lemma potential_at_nonneg: "0 \<le> V0 \<Longrightarrow> 0 \<le> potential_at V0 a x y"
  by (simp add: potential_at_def)

lemma cos_shift_sq:
  assumes "a \<noteq> 0"
  shows "(cos (pi * (x + a) / a))\<^sup>2 = (cos (pi * x / a))\<^sup>2"
proof -
  have "pi * (x + a) / a = pi * x / a + pi" using assms by (simp add: field_simps)
  then show ?thesis by simp
qed

lemma potential_at_periodic:
  assumes "a \<noteq> 0"
  shows "potential_at V0 a (x + a) y = potential_at V0 a x y"
    "potential_at V0 a x (y + a) = potential_at V0 a x y"
  using assms by (simp_all add: potential_at_def cos_shift_sq)

text \<open>
  Claim C7, as stated, fails: nothing constrains the sign of \<open>V0\<close>, and with a negative
  depth the potential is negative. On the one-point grid of \<open>Lx = Ly = 4\<close> with \<open>a = 2\<close>
  and \<open>V0 = -1\<close> the only entry of \<open>V\<close> is \<open>-2\<close>.
\<close>

theorem negative_depth_counterexample:
  "(case prepare 1 1 4 4 (- 1) 2 1 of Inl e \<Rightarrow> False | Inr s \<Rightarrow> s_V s = Some [[- 2]])"
  by (simp add: prepare_eq the_grid_one meshgrid_def potential_def emap2_def potential_at_def)

text \<open>
  Claim C7, amended. When the setup raises nothing and \<open>a \<noteq> 0\<close>, \<open>V\<close> is a finite array
  of the grid's shape, \<open>V[i][j] = V0 (cos\<^sup>2 (\<pi> X[i][j] / a) + cos\<^sup>2 (\<pi> Y[i][j] / a))\<close> at
  every grid point, \<open>V\<close> is non-negative there when \<open>V0 \<ge> 0\<close>, and as a function of
  the continuous coordinates it has period \<open>a\<close> along each axis.
\<close>

theorem potential_values:
  assumes "prepare Nx Ny Lx Ly V0 a sigma = Inr s" "a \<noteq> 0"
  shows "\<exists>V. s_V s = Some V \<and> rect (nat Nx) (nat Ny) V
     \<and> (\<forall>i<nat Nx. \<forall>j<nat Ny.
           V ! i ! j = V0 * ((cos (pi * (fst (meshgrid (s_x s) (s_y s)) ! i ! j) / a))\<^sup>2
                            + (cos (pi * (snd (meshgrid (s_x s) (s_y s)) ! i ! j) / a))\<^sup>2)
           \<and> V ! i ! j = potential_at V0 a (s_x s ! i) (s_y s ! j)
           \<and> (0 \<le> V0 \<longrightarrow> 0 \<le> V ! i ! j))
     \<and> (\<forall>x y. potential_at V0 a (x + a) y = potential_at V0 a x y
              \<and> potential_at V0 a x (y + a) = potential_at V0 a x y)"
proof -
  note p = prepare_Inr [OF assms(1)] and l = prepare_lengths [OF assms(1)]
  let ?X = "fst (meshgrid (s_x s) (s_y s))" and ?Y = "snd (meshgrid (s_x s) (s_y s))"
  let ?V = "emap2 (potential_at V0 a) ?X ?Y"
  have V: "s_V s = Some ?V" using p(9) assms(2) by (simp add: potential_def)
  have r: "rect (nat Nx) (nat Ny) ?V" using l by (simp add: rect_emap2)
  have nth: "?V ! i ! j = potential_at V0 a (?X ! i ! j) (?Y ! i ! j)"
    if "i < nat Nx" "j < nat Ny" for i j
    using that l by (simp add: emap2_nth)
  have xy: "?X ! i ! j = s_x s ! i" "?Y ! i ! j = s_y s ! j"
    if "i < nat Nx" "j < nat Ny" for i j
    using that l by (simp_all add: meshgrid_nth)
  have "\<forall>i<nat Nx. \<forall>j<nat Ny.
           ?V ! i ! j = V0 * ((cos (pi * (?X ! i ! j) / a))\<^sup>2 + (cos (pi * (?Y ! i ! j) / a))\<^sup>2)
           \<and> ?V ! i ! j = potential_at V0 a (s_x s ! i) (s_y s ! j)
           \<and> (0 \<le> V0 \<longrightarrow> 0 \<le> ?V ! i ! j)"
  proof (intro allI impI conjI)
    fix i j assume ij: "i < nat Nx" "j < nat Ny"
    show "?V ! i ! j = V0 * ((cos (pi * (?X ! i ! j) / a))\<^sup>2 + (cos (pi * (?Y ! i ! j) / a))\<^sup>2)"
      using nth [OF ij] by (simp add: potential_at_def)
    show "?V ! i ! j = potential_at V0 a (s_x s ! i) (s_y s ! j)"
      using nth [OF ij] xy [OF ij] by simp
    show "0 \<le> ?V ! i ! j" if "0 \<le> V0"
      using nth [OF ij] that by (simp add: potential_at_nonneg)
  qed
  then show ?thesis using V r potential_at_periodic [OF assms(2)] by blast
qed

theorem potential_values_witness:
  "\<exists>s V. prepare 1 1 4 4 10 2 1 = Inr s \<and> s_V s = Some V \<and> rect 1 1 V
     \<and> V ! 0 ! 0 = 20 \<and> 0 \<le> V ! 0 ! 0"
proof -
  have s: "prepare 1 1 4 4 10 2 1 =
      Inr \<lparr>s_dx = 4, s_dy = 4, s_x = [- 2], s_y = [- 2], s_V = Some [[20]],
            s_psi = Option.bind (gaussian 1 [[- 2]] [[- 2]]) (normalize 4 4),
            s_K2 = [[0]]\<rparr>"
    by (simp add: prepare_eq the_grid_one meshgrid_def potential_def emap2_def potential_at_def
        the_waves_eq K2_of_def)
  show ?thesis using potential_values [OF s] by (simp add: s rect_def)
qed

section \<open>The initial wavefunction\<close>

lemma total_pos:
  assumes "rect M N A" "0 < M" "0 < N" "\<And>i j. i < M \<Longrightarrow> j < N \<Longrightarrow> 0 < A ! i ! j"
  shows "0 < total A"
  unfolding total_sum [OF assms(1)]
  by (intro sum_pos) (use assms in auto)

lemma total_nonneg_density: "rect M N psi \<Longrightarrow> 0 \<le> total (density psi)"
  unfolding total_def density_def emap_def
  by (intro sum_list_nonneg) (auto intro!: sum_list_nonneg)

lemma density_nth:
  "rect M N psi \<Longrightarrow> i < M \<Longrightarrow> j < N \<Longrightarrow> density psi ! i ! j = (cmod (psi ! i ! j))\<^sup>2"
  by (simp add: density_def emap_nth)

lemma gaussian_Some:
  assumes "sigma \<noteq> 0"
  shows "gaussian sigma X Y
    = Some (emap2 (\<lambda>x y. complex_of_real (exp (- (x\<^sup>2 + y\<^sup>2) / (2 * sigma\<^sup>2)))) X Y)"
  using assms by (simp add: gaussian_def)

lemma gaussian_start:
  assumes "0 < sigma" "0 < Nx" "0 < Ny" "0 < Lx" "0 < Ly"
  shows "\<exists>s psi0 psi. prepare Nx Ny Lx Ly V0 a sigma = Inr s
     \<and> gaussian sigma (fst (meshgrid (s_x s) (s_y s))) (snd (meshgrid (s_x s) (s_y s)))
         = Some psi0
     \<and> rect (nat Nx) (nat Ny) psi0
     \<and> (\<forall>i<nat Nx. \<forall>j<nat Ny.
           psi0 ! i ! j = complex_of_real
               (exp (- ((s_x s ! i)\<^sup>2 + (s_y s ! j)\<^sup>2) / (2 * sigma\<^sup>2)))
           \<and> 0 < Re (psi0 ! i ! j) \<and> Im (psi0 ! i ! j) = 0)
     \<and> 0 < sqrt (total (density psi0) * s_dx s * s_dy s)
     \<and> normalize (s_dx s) (s_dy s) psi0 = Some psi
     \<and> psi = emap (\<lambda>z. z / complex_of_real (sqrt (total (density psi0) * s_dx s * s_dy s))) psi0
     \<and> s_psi s = Some psi"
proof -
  obtain s where s: "prepare Nx Ny Lx Ly V0 a sigma = Inr s"
    using prepare_Inr_ex [of Nx Ny Lx Ly V0 a sigma] assms by auto
  note p = prepare_Inr [OF s] and l = prepare_lengths [OF s]
  define f where "f = (\<lambda>x y. complex_of_real (exp (- (x\<^sup>2 + y\<^sup>2) / (2 * sigma\<^sup>2))))"
  have f: "0 < Re (f x y)" "Im (f x y) = 0" "0 < cmod (f x y)" for x y
    by (simp_all add: f_def norm_of_real del: of_real_exp)
  let ?X = "fst (meshgrid (s_x s) (s_y s))" and ?Y = "snd (meshgrid (s_x s) (s_y s))"
  let ?psi0 = "emap2 f ?X ?Y"
  let ?s = "total (density ?psi0) * s_dx s * s_dy s"
  have g: "gaussian sigma ?X ?Y = Some ?psi0"
    using assms(1) by (simp add: gaussian_Some f_def)
  have r: "rect (nat Nx) (nat Ny) ?psi0" using l by (simp add: rect_emap2)
  have nth: "?psi0 ! i ! j = f (s_x s ! i) (s_y s ! j)" if "i < nat Nx" "j < nat Ny" for i j
    using that l by (simp add: emap2_nth meshgrid_nth)
  have d: "0 < s_dx s" "0 < s_dy s" using p assms by simp_all
  have "0 < total (density ?psi0)"
  proof (rule total_pos)
    show "rect (nat Nx) (nat Ny) (density ?psi0)" using r by simp
    show "0 < nat Nx" "0 < nat Ny" using assms by simp_all
    fix i j assume ij: "i < nat Nx" "j < nat Ny"
    then show "0 < density ?psi0 ! i ! j"
      using r f(3) by (simp add: density_nth nth)
  qed
  then have pos: "0 < ?s" using d by simp
  then have n: "normalize (s_dx s) (s_dy s) ?psi0
      = Some (emap (\<lambda>z. z / complex_of_real (sqrt ?s)) ?psi0)"
    by (simp add: normalize_def Let_def)
  have "s_psi s = Some (emap (\<lambda>z. z / complex_of_real (sqrt ?s)) ?psi0)"
    using p(10) g n by simp
  moreover have "\<forall>i<nat Nx. \<forall>j<nat Ny.
      ?psi0 ! i ! j = complex_of_real (exp (- ((s_x s ! i)\<^sup>2 + (s_y s ! j)\<^sup>2) / (2 * sigma\<^sup>2)))
      \<and> 0 < Re (?psi0 ! i ! j) \<and> Im (?psi0 ! i ! j) = 0"
  proof (intro allI impI)
    fix i j assume ij: "i < nat Nx" "j < nat Ny"
    have e: "?psi0 ! i ! j
        = complex_of_real (exp (- ((s_x s ! i)\<^sup>2 + (s_y s ! j)\<^sup>2) / (2 * sigma\<^sup>2)))"
      unfolding nth [OF ij] by (simp only: f_def)
    have re: "0 < Re (?psi0 ! i ! j)" unfolding nth [OF ij] by (rule f)
    have im: "Im (?psi0 ! i ! j) = 0" unfolding nth [OF ij] by (rule f)
    show "?psi0 ! i ! j
        = complex_of_real (exp (- ((s_x s ! i)\<^sup>2 + (s_y s ! j)\<^sup>2) / (2 * sigma\<^sup>2)))
        \<and> 0 < Re (?psi0 ! i ! j) \<and> Im (?psi0 ! i ! j) = 0"
      using e re im by (intro conjI)
  qed
  moreover have "0 < sqrt ?s" using pos by simp
  ultimately show ?thesis using s g r n by blast
qed

section \<open>The loop body\<close>

lemma phase_cis:
  "exp (- \<i> * complex_of_real r * complex_of_real dt / 2) = cis (- r * dt / 2)"
  by (simp add: cis_conv_exp mult.assoc)

lemma half_step_nth:
  assumes "rect M N V" "rect M N psi" "i < M" "j < N"
  shows "half_step V g dt psi ! i ! j
    = psi ! i ! j * cis (- (V ! i ! j + g * (cmod (psi ! i ! j))\<^sup>2) * dt / 2)"
  unfolding half_step_def emap2_nth [OF assms] phase_cis ..

lemma kinetic_step_eq:
  "kinetic_step K2 dt psi = ifft2 (emap2 (\<lambda>k z. z * cis (- k * dt / 2)) K2 (fft2 psi))"
  unfolding kinetic_step_def Let_def phase_cis ..

lemma iteration_None [simp]:
  "iteration V K2 g dt dx dy None = None" "iteration None K2 g dt dx dy psi = None"
  by (simp_all add: iteration_def split: option.split)

lemma iteration_Some:
  "iteration (Some V) K2 g dt dx dy (Some psi)
    = normalize dx dy (half_step V g dt (kinetic_step K2 dt (half_step V g dt psi)))"
  by (simp add: iteration_def Let_def)

lemma time_loop_funpow:
  "time_loop n V K2 g dt dx dy psi = ((iteration V K2 g dt dx dy) ^^ n) psi"
  by (induction n arbitrary: psi) (simp_all add: funpow_swap1)

lemma time_loop_Suc_end:
  "time_loop (Suc n) V K2 g dt dx dy psi
    = iteration V K2 g dt dx dy (time_loop n V K2 g dt dx dy psi)"
  by (simp add: time_loop_funpow del: time_loop.simps)

lemma time_loop_add:
  "time_loop (n + k) V K2 g dt dx dy psi
    = time_loop k V K2 g dt dx dy (time_loop n V K2 g dt dx dy psi)"
  by (simp add: time_loop_funpow funpow_add add.commute del: time_loop.simps)

lemma time_loop_None [simp]: "time_loop n V K2 g dt dx dy None = None"
  by (induction n) simp_all

lemma time_loop_V_None: "0 < n \<Longrightarrow> time_loop n None K2 g dt dx dy psi = None"
  by (cases n) simp_all

lemma normalize_None:
  "\<not> 0 < total (density psi) * dx * dy \<Longrightarrow> concat psi \<noteq> [] \<Longrightarrow> normalize dx dy psi = None"
  by (simp add: normalize_def Let_def)

lemma normalize_Some:
  "0 < total (density psi) * dx * dy \<Longrightarrow>
   normalize dx dy psi
     = Some (emap (\<lambda>z. z / complex_of_real (sqrt (total (density psi) * dx * dy))) psi)"
  by (simp add: normalize_def Let_def)

lemma total_density_scale:
  assumes "rect M N psi"
  shows "total (density (emap (\<lambda>z. z / complex_of_real c) psi)) = total (density psi) / c\<^sup>2"
proof -
  have r: "rect M N (emap (\<lambda>z. z / complex_of_real c) psi)" using assms by simp
  have "total (density (emap (\<lambda>z. z / complex_of_real c) psi))
      = (\<Sum>i<M. \<Sum>j<N. (cmod (psi ! i ! j))\<^sup>2 / c\<^sup>2)"
    using assms r
    by (subst total_sum [of M N])
       (simp_all add: density_nth emap_nth norm_divide power_divide)
  also have "\<dots> = (\<Sum>i<M. \<Sum>j<N. (cmod (psi ! i ! j))\<^sup>2) / c\<^sup>2"
    by (simp add: sum_divide_distrib)
  also have "(\<Sum>i<M. \<Sum>j<N. (cmod (psi ! i ! j))\<^sup>2) = total (density psi)"
    using assms by (subst total_sum [of M N]) (simp_all add: density_nth)
  finally show ?thesis .
qed

lemma normalize_unit:
  assumes "rect M N psi" "0 < M" "0 < N" "normalize dx dy psi = Some psi'"
  shows "total (density psi') * dx * dy = 1"
proof -
  define s where "s = total (density psi) * dx * dy"
  have ne: "concat psi \<noteq> []" using assms(1-3) by (rule rect_nonempty)
  have pos: "0 < s"
    using assms(4) ne by (auto simp: normalize_def Let_def s_def split: if_splits)
  then have "psi' = emap (\<lambda>z. z / complex_of_real (sqrt s)) psi"
    using assms(4) by (simp add: normalize_Some s_def)
  then have "total (density psi') = total (density psi) / (sqrt s)\<^sup>2"
    using assms(1) by (simp add: total_density_scale)
  also have "(sqrt s)\<^sup>2 = s" using pos by simp
  finally have "total (density psi') * dx * dy = (total (density psi) * dx * dy) / s"
    by simp
  also have "\<dots> = 1" using pos by (simp add: s_def [symmetric])
  finally show ?thesis .
qed

lemma rect_gaussian: "rect M N X \<Longrightarrow> rect M N Y \<Longrightarrow> gaussian sigma X Y = Some psi \<Longrightarrow> rect M N psi"
  by (auto simp: gaussian_def rect_emap2 split: if_splits)

lemma rect_potential: "rect M N X \<Longrightarrow> rect M N Y \<Longrightarrow> potential V0 a X Y = Some V \<Longrightarrow> rect M N V"
  by (auto simp: potential_def rect_emap2 split: if_splits)

lemma prepare_rect_V:
  assumes "prepare Nx Ny Lx Ly V0 a sigma = Inr s" "s_V s = Some V"
  shows "rect (nat Nx) (nat Ny) V"
  using prepare_Inr(9) [OF assms(1)] prepare_lengths(5,6) [OF assms(1)] assms(2)
  by (auto intro: rect_potential)

lemma prepare_psi:
  assumes "prepare Nx Ny Lx Ly V0 a sigma = Inr s" "s_psi s = Some psi"
  shows "rect (nat Nx) (nat Ny) psi" "total (density psi) * s_dx s * s_dy s = 1"
proof -
  note p = prepare_Inr [OF assms(1)] and l = prepare_lengths [OF assms(1)]
  have "Option.bind (gaussian sigma (fst (meshgrid (s_x s) (s_y s)))
      (snd (meshgrid (s_x s) (s_y s)))) (normalize (s_dx s) (s_dy s)) = Some psi"
    using p(10) assms(2) by simp
  then obtain psi0 where g: "gaussian sigma (fst (meshgrid (s_x s) (s_y s)))
      (snd (meshgrid (s_x s) (s_y s))) = Some psi0"
    and n: "normalize (s_dx s) (s_dy s) psi0 = Some psi"
    by (auto simp: bind_eq_Some_conv)
  have r: "rect (nat Nx) (nat Ny) psi0" using l(5,6) g by (rule rect_gaussian)
  show "rect (nat Nx) (nat Ny) psi" using r n by (rule rect_normalize)
  show "total (density psi) * s_dx s * s_dy s = 1"
    using r _ _ n by (rule normalize_unit) (use p in simp_all)
qed

lemma state_invariant:
  assumes "prepare Nx Ny Lx Ly V0 a sigma = Inr s"
    "time_loop t (s_V s) (s_K2 s) g dt (s_dx s) (s_dy s) (s_psi s) = Some psi"
  shows "rect (nat Nx) (nat Ny) psi \<and> total (density psi) * s_dx s * s_dy s = 1"
  using assms(2)
proof (induction t arbitrary: psi)
  case 0
  then show ?case using prepare_psi [OF assms(1)] by simp
next
  case (Suc t)
  note p = prepare_Inr [OF assms(1)] and l = prepare_lengths [OF assms(1)]
  let ?prev = "time_loop t (s_V s) (s_K2 s) g dt (s_dx s) (s_dy s) (s_psi s)"
  have it: "iteration (s_V s) (s_K2 s) g dt (s_dx s) (s_dy s) ?prev = Some psi"
    using Suc.prems by (simp only: time_loop_Suc_end)
  then obtain V q where V: "s_V s = Some V" and q: "?prev = Some q"
    by (cases "s_V s"; cases ?prev) simp_all
  have rV: "rect (nat Nx) (nat Ny) V" using assms(1) V by (rule prepare_rect_V)
  have rq: "rect (nat Nx) (nat Ny) q" using Suc.IH [OF q] by simp
  let ?p3 = "half_step V g dt (kinetic_step (s_K2 s) dt (half_step V g dt q))"
  have n: "normalize (s_dx s) (s_dy s) ?p3 = Some psi"
    using it unfolding q unfolding V iteration_Some .
  have r3: "rect (nat Nx) (nat Ny) ?p3"
    by (intro rect_half_step rect_kinetic_step rV rq l(7))
  have "rect (nat Nx) (nat Ny) psi" using r3 n by (rule rect_normalize)
  moreover have "total (density psi) * s_dx s * s_dy s = 1"
    using r3 _ _ n by (rule normalize_unit) (use p in simp_all)
  ultimately show ?case ..
qed

section \<open>Concrete runs\<close>

lemma sigma_zero_start: "psi_after 2 2 10 10 dt g V0 a 0 0 = Inr None"
  by (simp add: psi_after_def prepare_eq the_grid_def linspace_def Let_def upt_rec
      meshgrid_def gaussian_def emap2_def normalize_def density_def emap_def total_def)

lemma psi_after_None:
  "psi_after Nx Ny Lx Ly dt g V0 a sigma 0 = Inr None \<Longrightarrow>
   psi_after Nx Ny Lx Ly dt g V0 a sigma t = Inr None"
  by (auto simp: psi_after_def split: sum.splits)

lemma period_zero_run:
  "0 < t \<Longrightarrow> psi_after 2 2 10 10 dt g V0 0 sigma t = Inr None"
  by (simp add: psi_after_def prepare_eq potential_def time_loop_V_None)

section \<open>Non-finite values\<close>

text \<open>
  Claim C5, as stated, fails: the script has no \<open>NumericalInstability\<close> error and tests
  neither the divisor nor the field. With \<open>sigma = 0\<close> the initial field is zero, the
  norm of line 35 is zero and \<open>psi\<close> is \<^verbatim>\<open>nan\<close> when the loop starts; with \<open>a = 0\<close> the
  potential is \<^verbatim>\<open>nan\<close> and so is \<open>psi\<close> after line 46 of the first pass. In both runs all
  2000 passes are executed, no exception is raised, and the density handed to the plot
  is not finite.
\<close>

theorem numerical_instability_counterexample:
  "gpe 2 2 10 10 (1 / 5000) 1 10 2 0 2000 = Inr None
   \<and> gpe 2 2 10 10 (1 / 5000) 1 10 0 1 2000 = Inr None"
  by (simp add: gpe_def psi_after_None [OF sigma_zero_start] period_zero_run)

text \<open>
  Claim C5, amended. The loop raises nothing. When the radicand \<open>\<Sum> |psi|\<^sup>2 dx dy\<close> of a
  non-empty field is not strictly positive (a zero divisor, or a \<^verbatim>\<open>nan\<close> norm), the
  division is carried out all the same and leaves \<open>psi\<close> non-finite; a pass through the
  loop body with a non-finite \<open>psi\<close> or a non-finite \<open>V\<close> leaves \<open>psi\<close> non-finite; and
  once \<open>psi\<close> is non-finite after \<open>t\<close> passes it is non-finite after every later pass,
  and so is the output density: the script returns it without any error.
\<close>

theorem non_finite_is_propagated:
  "(\<not> 0 < total (density psi) * dx * dy \<longrightarrow> concat psi \<noteq> [] \<longrightarrow> normalize dx dy psi = None)
   \<and> iteration V K2 g dt dx dy None = None
   \<and> iteration None K2 g dt dx dy p = None
   \<and> time_loop n V K2 g dt dx dy None = None
   \<and> (psi_after Nx Ny Lx Ly dt g V0 a sigma t = Inr None \<longrightarrow>
        (\<forall>k. psi_after Nx Ny Lx Ly dt g V0 a sigma (t + k) = Inr None)
        \<and> (int t \<le> steps \<longrightarrow> gpe Nx Ny Lx Ly dt g V0 a sigma steps = Inr None))"
proof (intro conjI impI allI)
  show "normalize dx dy psi = None"
    if "\<not> 0 < total (density psi) * dx * dy" "concat psi \<noteq> []"
    using that by (rule normalize_None)
next
  assume a: "psi_after Nx Ny Lx Ly dt g V0 a sigma t = Inr None"
  show k: "psi_after Nx Ny Lx Ly dt g V0 a sigma (t + k) = Inr None" for k
    using a by (auto simp: psi_after_def time_loop_add split: sum.splits)
  show "gpe Nx Ny Lx Ly dt g V0 a sigma steps = Inr None" if "int t \<le> steps"
  proof -
    have "nat steps = t + (nat steps - t)" using that by simp
    then have "psi_after Nx Ny Lx Ly dt g V0 a sigma (nat steps) = Inr None"
      using k [of "nat steps - t"] by simp
    then show ?thesis by (simp add: gpe_def)
  qed
qed simp_all

theorem non_finite_is_propagated_witness:
  "psi_after 2 2 10 10 (1 / 5000) 1 10 2 0 (0 + 7) = Inr None
   \<and> gpe 2 2 10 10 (1 / 5000) 1 10 2 0 2000 = Inr None"
  using non_finite_is_propagated [where Nx = 2 and Ny = 2 and Lx = 10 and Ly = 10
      and dt = "1 / 5000" and g = 1 and ?V0.0 = 10 and a = 2 and sigma = 0 and t = 0
      and steps = 2000]
    sigma_zero_start [of "1 / 5000" 1 10 2]
  by simp

section \<open>The split-step sequence\<close>






section \<open>The discrete Fourier transform\<close>

lemma wave_zero [simp]: "wave N 0 k = 1"
  by (simp add: wave_def)

lemma wave_power: "wave N d k = wave N d 1 ^ k"
  by (simp add: wave_def DeMoivre algebra_simps)

lemma wave_period:
  assumes "0 < N"
  shows "wave N d 1 ^ N = 1"
proof -
  have "wave N d 1 ^ N = cis (2 * pi * real_of_int d)"
    using assms by (simp add: wave_def DeMoivre)
  then show ?thesis by simp
qed

lemma wave_neq_one:
  assumes "0 < N" "d \<noteq> 0" "\<bar>d\<bar> < int N"
  shows "wave N d 1 \<noteq> 1"
proof
  assume "wave N d 1 = 1"
  then have "cos (2 * pi * (real_of_int d / real N)) = 1"
    by (simp add: wave_def complex_eq_iff)
  then obtain n :: int where "2 * pi * (real_of_int d / real N) = of_int n * 2 * pi"
    by (auto simp: cos_one_2pi_int)
  then have "2 * pi * (real_of_int d / real N) = 2 * pi * real_of_int n"
    by (simp only: mult_ac)
  then have "real_of_int d / real N = of_int n"
    by (subst (asm) mult_left_cancel) simp_all
  then have "real_of_int d = real_of_int (n * int N)" using assms(1) by (simp add: field_simps)
  then have "d = n * int N" by (simp only: of_int_eq_iff)
  then have "\<bar>d\<bar> = \<bar>n\<bar> * int N" by (simp add: abs_mult)
  moreover have "n \<noteq> 0" using \<open>d = n * int N\<close> assms(2) by auto
  then have "1 \<le> \<bar>n\<bar>" by simp
  then have "int N \<le> \<bar>n\<bar> * int N" by (simp add: mult_le_cancel_right1)
  ultimately show False using assms(3) by simp
qed

lemma wave_sum:
  assumes "0 < N" "\<bar>d\<bar> < int N"
  shows "(\<Sum>k<N. wave N d k) = (if d = 0 then of_nat N else 0)"
proof (cases "d = 0")
  case True
  then show ?thesis by simp
next
  case False
  have "(\<Sum>k<N. wave N d k) = (\<Sum>k<N. wave N d 1 ^ k)"
    by (subst wave_power) simp
  also have "\<dots> = (wave N d 1 ^ N - 1) / (wave N d 1 - 1)"
    using wave_neq_one [OF assms(1) False assms(2)] by (rule geometric_sum)
  also have "\<dots> = 0" using wave_period [OF assms(1), of d] by simp
  finally show ?thesis using False by simp
qed

lemma cis_dft_kernel:
  "cis (dft_kernel M N m n k l - dft_kernel M N m' n' k l)
    = wave M (int m - int m') k * wave N (int n - int n') l"
  by (simp add: dft_kernel_def wave_def cis_mult algebra_simps diff_divide_distrib)

lemma sum4_swap:
  fixes f :: "nat \<Rightarrow> nat \<Rightarrow> nat \<Rightarrow> nat \<Rightarrow> complex"
  shows "(\<Sum>k<M. \<Sum>l<N. \<Sum>m<P. \<Sum>n<Q. f k l m n) = (\<Sum>m<P. \<Sum>n<Q. \<Sum>k<M. \<Sum>l<N. f k l m n)"
proof -
  have "(\<Sum>k<M. \<Sum>l<N. \<Sum>m<P. \<Sum>n<Q. f k l m n)
      = (\<Sum>k<M. \<Sum>m<P. \<Sum>l<N. \<Sum>n<Q. f k l m n)"
    by (intro sum.cong refl sum.swap)
  also have "\<dots> = (\<Sum>m<P. \<Sum>k<M. \<Sum>l<N. \<Sum>n<Q. f k l m n)"
    by (rule sum.swap)
  also have "\<dots> = (\<Sum>m<P. \<Sum>k<M. \<Sum>n<Q. \<Sum>l<N. f k l m n)"
    by (intro sum.cong refl sum.swap)
  also have "\<dots> = (\<Sum>m<P. \<Sum>n<Q. \<Sum>k<M. \<Sum>l<N. f k l m n)"
    by (intro sum.cong refl sum.swap)
  finally show ?thesis .
qed

lemma filtered_ifft2_nth:
  assumes psi: "rect M N psi" and F: "rect M N F"
    and G: "\<And>k l. k < M \<Longrightarrow> l < N \<Longrightarrow> F ! k ! l = fft2 psi ! k ! l * G k l"
    and m: "m < M" and n: "n < N"
  shows "ifft2 F ! m ! n
    = (\<Sum>m'<M. \<Sum>n'<N. psi ! m' ! n' * kern M N G (int m - int m') (int n - int n'))"
proof -
  let ?w = "\<lambda>k l m' n'. wave M (int m - int m') k * wave N (int n - int n') l"
  have "(\<Sum>k<M. \<Sum>l<N. F ! k ! l * cis (dft_kernel M N m n k l))
      = (\<Sum>k<M. \<Sum>l<N. \<Sum>m'<M. \<Sum>n'<N. psi ! m' ! n' * (G k l * ?w k l m' n'))"
  proof (intro sum.cong refl)
    fix k l assume "k \<in> {..<M}" "l \<in> {..<N}"
    then have kl: "k < M" "l < N" by simp_all
    have "F ! k ! l * cis (dft_kernel M N m n k l)
        = (\<Sum>m'<M. \<Sum>n'<N. psi ! m' ! n' * cis (- dft_kernel M N m' n' k l)) * G k l
            * cis (dft_kernel M N m n k l)"
      by (simp only: G [OF kl] fft2_nth [OF psi kl])
    also have "\<dots> = (\<Sum>m'<M. \<Sum>n'<N. psi ! m' ! n' * cis (- dft_kernel M N m' n' k l)
            * G k l * cis (dft_kernel M N m n k l))"
      by (simp only: sum_distrib_right)
    also have "\<dots> = (\<Sum>m'<M. \<Sum>n'<N. psi ! m' ! n' * (G k l * ?w k l m' n'))"
    proof (intro sum.cong refl)
      fix m' n'
      have "cis (- dft_kernel M N m' n' k l) * cis (dft_kernel M N m n k l) = ?w k l m' n'"
        by (simp only: cis_mult cis_dft_kernel [symmetric]) simp
      then show "psi ! m' ! n' * cis (- dft_kernel M N m' n' k l) * G k l
            * cis (dft_kernel M N m n k l) = psi ! m' ! n' * (G k l * ?w k l m' n')"
        by (simp add: mult_ac)
    qed
    finally show "F ! k ! l * cis (dft_kernel M N m n k l)
        = (\<Sum>m'<M. \<Sum>n'<N. psi ! m' ! n' * (G k l * ?w k l m' n'))" .
  qed
  also have "\<dots> = (\<Sum>m'<M. \<Sum>n'<N. \<Sum>k<M. \<Sum>l<N. psi ! m' ! n' * (G k l * ?w k l m' n'))"
    by (rule sum4_swap)
  also have "\<dots> = (\<Sum>m'<M. \<Sum>n'<N. psi ! m' ! n' * (\<Sum>k<M. \<Sum>l<N. G k l * ?w k l m' n'))"
    by (simp only: sum_distrib_left)
  finally have e: "(\<Sum>k<M. \<Sum>l<N. F ! k ! l * cis (dft_kernel M N m n k l))
      = (\<Sum>m'<M. \<Sum>n'<N. psi ! m' ! n' * (\<Sum>k<M. \<Sum>l<N. G k l * ?w k l m' n'))" .
  define S where "S = (\<lambda>m' n'. \<Sum>k<M. \<Sum>l<N. G k l * ?w k l m' n')"
  have "ifft2 F ! m ! n = (\<Sum>m'<M. \<Sum>n'<N. psi ! m' ! n' * S m' n') / of_nat (M * N)"
    unfolding S_def by (simp only: ifft2_nth [OF F m n] e)
  also have "\<dots> = (\<Sum>m'<M. \<Sum>n'<N. psi ! m' ! n' * S m' n' / of_nat (M * N))"
    by (simp only: sum_divide_distrib)
  also have "\<dots> = (\<Sum>m'<M. \<Sum>n'<N. psi ! m' ! n' * (S m' n' / of_nat (M * N)))"
    by (simp only: times_divide_eq_right)
  finally show ?thesis unfolding S_def kern_def .
qed

lemma kern_one:
  assumes "0 < M" "0 < N" "\<bar>a\<bar> < int M" "\<bar>b\<bar> < int N"
  shows "kern M N (\<lambda>k l. 1) a b = (if a = 0 \<and> b = 0 then 1 else 0)"
proof -
  have "(\<Sum>k<M. \<Sum>l<N. 1 * (wave M a k * wave N b l))
      = (\<Sum>k<M. wave M a k) * (\<Sum>l<N. wave N b l)"
    by (simp add: sum_product)
  then show ?thesis
    using assms by (simp add: kern_def wave_sum)
qed

lemma ifft2_fft2:
  assumes "rect M N f"
  shows "ifft2 (fft2 f) = f"
proof (rule rect_ext)
  show "rect M N (ifft2 (fft2 f))" using assms by (intro rect_ifft2 rect_fft2)
  show "rect M N f" by fact
  fix m n assume m: "m < M" and n: "n < N"
  have "ifft2 (fft2 f) ! m ! n
      = (\<Sum>m'<M. \<Sum>n'<N. f ! m' ! n' * kern M N (\<lambda>k l. 1) (int m - int m') (int n - int n'))"
    by (rule filtered_ifft2_nth [OF assms rect_fft2 [OF assms] _ m n]) simp
  also have "\<dots> = (\<Sum>m'<M. \<Sum>n'<N. if m' = m \<and> n' = n then f ! m' ! n' else 0)"
  proof (intro sum.cong refl)
    fix m' n' assume "m' \<in> {..<M}" "n' \<in> {..<N}"
    then have "kern M N (\<lambda>k l. 1) (int m - int m') (int n - int n')
        = (if int m - int m' = 0 \<and> int n - int n' = 0 then 1 else 0)"
      using m n by (intro kern_one) auto
    then show "f ! m' ! n' * kern M N (\<lambda>k l. 1) (int m - int m') (int n - int n')
        = (if m' = m \<and> n' = n then f ! m' ! n' else 0)"
      by auto
  qed
  also have "\<dots> = (\<Sum>m'<M. if m' = m then (\<Sum>n'<N. if n' = n then f ! m' ! n' else 0) else 0)"
    by (intro sum.cong refl) simp
  also have "\<dots> = f ! m ! n" using m n by simp
  finally show "ifft2 (fft2 f) ! m ! n = f ! m ! n" .
qed





section \<open>Point symmetry\<close>

lemma negate_bin_less: "k < M \<Longrightarrow> negate_bin M k < M"
  by (simp add: negate_bin_def)

lemma negate_bin_cases: "k < M \<Longrightarrow> negate_bin M k = (if k = 0 then 0 else M - k)"
  by (simp add: negate_bin_def)

lemma negate_bin_invol: "k < M \<Longrightarrow> negate_bin M (negate_bin M k) = k"
  by (simp add: negate_bin_cases)

lemma bij_negate_bin: "bij_betw (negate_bin M) {..<M} {..<M}"
  by (rule bij_betw_byWitness [where f' = "negate_bin M"])
     (auto simp: negate_bin_invol negate_bin_less)

lemma wave_negate_bin:
  assumes "k < M"
  shows "wave M (- a) (negate_bin M k) = wave M a k"
proof (cases "k = 0")
  case True
  then show ?thesis using assms by (simp add: negate_bin_cases wave_def)
next
  case False
  then have r: "real (M - k) = real M - real k" using assms by (simp add: of_nat_diff)
  have M: "real M \<noteq> 0" using assms by simp
  have "2 * pi * (real_of_int (- a) * real (M - k) / real M)
      = 2 * pi * (real_of_int a * real k / real M) + 2 * pi * of_int (- a)"
    unfolding r using M by (simp add: field_simps)
  then have "wave M (- a) (M - k) = wave M a k"
    unfolding wave_def
    by (simp only: cis_mult [symmetric] cis_multiple_2pi Ints_of_int mult_1_right)
  then show ?thesis using False assms by (simp add: negate_bin_cases)
qed

lemma kern_even:
  assumes G: "\<And>k l. k < M \<Longrightarrow> l < N \<Longrightarrow> G (negate_bin M k) (negate_bin N l) = G k l"
  shows "kern M N G (- a) (- b) = kern M N G a b"
proof -
  let ?f = "\<lambda>k l. G k l * (wave M (- a) k * wave N (- b) l)"
  have "(\<Sum>k<M. \<Sum>l<N. ?f k l) = (\<Sum>k<M. \<Sum>l<N. ?f (negate_bin M k) l)"
    by (rule sum.reindex_bij_betw [OF bij_negate_bin, symmetric])
  also have "\<dots> = (\<Sum>k<M. \<Sum>l<N. ?f (negate_bin M k) (negate_bin N l))"
    by (intro sum.cong refl sum.reindex_bij_betw [OF bij_negate_bin, symmetric])
  also have "\<dots> = (\<Sum>k<M. \<Sum>l<N. G k l * (wave M a k * wave N b l))"
    by (intro sum.cong refl) (simp add: G wave_negate_bin)
  finally show ?thesis by (simp only: kern_def)
qed

lemma standard_bin_negate:
  assumes "0 < n" "k < nat n"
  shows "(standard_bin n (negate_bin (nat n) k))\<^sup>2 = (standard_bin n k)\<^sup>2"
proof (cases "k = 0")
  case True
  then show ?thesis using assms by (simp add: negate_bin_cases)
next
  case False
  then have nb: "negate_bin (nat n) k = nat n - k" using assms by (simp add: negate_bin_cases)
  have i: "int (nat n - k) = n - int k" using assms by simp
  consider "2 * int k < n" | "2 * int k = n" | "n < 2 * int k" by linarith
  then show ?thesis
  proof cases
    case 1
    then have "standard_bin n (nat n - k) = - int k" "standard_bin n k = int k"
      using assms by (simp_all add: standard_bin_def i)
    then show ?thesis by (simp add: nb)
  next
    case 2
    then have "nat n - k = k" using assms by linarith
    then show ?thesis by (simp add: nb)
  next
    case 3
    then have "standard_bin n (nat n - k) = n - int k" "standard_bin n k = int k - n"
      using assms by (simp_all add: standard_bin_def i)
    then show ?thesis by (simp add: nb power2_commute)
  qed
qed

lemma the_waves_negate:
  assumes "0 < n" "d \<noteq> 0" "k < nat n"
  shows "(the_waves n d ! negate_bin (nat n) k)\<^sup>2 = (the_waves n d ! k)\<^sup>2"
proof -
  have "(real_of_int (standard_bin n (negate_bin (nat n) k)))\<^sup>2
      = (real_of_int (standard_bin n k))\<^sup>2"
    using standard_bin_negate [OF assms(1,3)] by (metis of_int_power)
  then show ?thesis
    using assms by (simp add: the_waves_nth negate_bin_less power_mult_distrib power_divide)
qed

lemma K2_even:
  assumes "prepare Nx Ny Lx Ly V0 a sigma = Inr s" "k < nat Nx" "l < nat Ny"
  shows "s_K2 s ! negate_bin (nat Nx) k ! negate_bin (nat Ny) l = s_K2 s ! k ! l"
proof -
  note p = prepare_Inr [OF assms(1)] and q = prepare_lengths [OF assms(1)]
  have len: "length (the_waves Nx (s_dx s)) = nat Nx" "length (the_waves Ny (s_dy s)) = nat Ny"
    using p(1,2) q(3,4) by (simp_all add: length_the_waves)
  show ?thesis
    using assms(2,3) len p(1,2) q(3,4)
    by (simp add: p(11) K2_of_nth negate_bin_less the_waves_negate)
qed

lemma kinetic_step_nth:
  assumes "rect M N K2" "rect M N psi" "m < M" "n < N"
  shows "kinetic_step K2 dt psi ! m ! n
    = (\<Sum>m'<M. \<Sum>n'<N. psi ! m' ! n'
        * kern M N (\<lambda>k l. cis (- (K2 ! k ! l) * dt / 2)) (int m - int m') (int n - int n'))"
  unfolding kinetic_step_eq
proof (rule filtered_ifft2_nth [OF assms(2) _ _ assms(3,4)])
  show "rect M N (emap2 (\<lambda>k z. z * cis (- k * dt / 2)) K2 (fft2 psi))"
    using assms(1,2) by (intro rect_emap2 rect_fft2)
  show "emap2 (\<lambda>k z. z * cis (- k * dt / 2)) K2 (fft2 psi) ! k ! l
      = fft2 psi ! k ! l * cis (- (K2 ! k ! l) * dt / 2)" if "k < M" "l < N" for k l
    using assms(1) rect_fft2 [OF assms(2)] that by (simp add: emap2_nth)
qed

lemma sum2_reverse:
  fixes f :: "nat \<Rightarrow> nat \<Rightarrow> complex"
  shows "(\<Sum>i<M. \<Sum>j<N. f (M - 1 - i) (N - 1 - j)) = (\<Sum>i<M. \<Sum>j<N. f i j)"
proof -
  have inner: "(\<Sum>j<N. f c (N - 1 - j)) = (\<Sum>j<N. f c j)" for c
    using sum.nat_diff_reindex [of "f c" N] by simp
  have "(\<Sum>i<M. \<Sum>j<N. f (M - 1 - i) (N - 1 - j)) = (\<Sum>i<M. \<Sum>j<N. f (M - 1 - i) j)"
    by (simp only: inner)
  also have "\<dots> = (\<Sum>i<M. \<Sum>j<N. f i j)"
    using sum.nat_diff_reindex [of "\<lambda>i. \<Sum>j<N. f i j" M] by simp
  finally show ?thesis .
qed

lemma point_symmetric_kinetic_step:
  assumes K2: "rect M N K2" and psi: "rect M N psi" and sym: "point_symmetric M N psi"
    and even: "\<And>k l. k < M \<Longrightarrow> l < N \<Longrightarrow> K2 ! negate_bin M k ! negate_bin N l = K2 ! k ! l"
  shows "point_symmetric M N (kinetic_step K2 dt psi)"
  unfolding point_symmetric_def
proof (intro allI impI)
  fix m n assume m: "m < M" and n: "n < N"
  define G where "G = (\<lambda>k l. cis (- (K2 ! k ! l) * dt / 2))"
  have ev: "kern M N G (- c) (- d) = kern M N G c d" for c d
    by (rule kern_even) (simp add: G_def even)
  define h where "h = (\<lambda>m' n'. psi ! m' ! n' * kern M N G (int (M - 1 - m) - int m')
      (int (N - 1 - n) - int n'))"
  have "kinetic_step K2 dt psi ! (M - 1 - m) ! (N - 1 - n) = (\<Sum>m'<M. \<Sum>n'<N. h m' n')"
    unfolding h_def G_def using m n by (intro kinetic_step_nth [OF K2 psi]) simp_all
  also have "\<dots> = (\<Sum>m'<M. \<Sum>n'<N. h (M - 1 - m') (N - 1 - n'))"
    by (rule sum2_reverse [symmetric])
  also have "\<dots> = (\<Sum>m'<M. \<Sum>n'<N. psi ! m' ! n' * kern M N G (int m - int m') (int n - int n'))"
  proof (intro sum.cong refl)
    fix m' n' assume "m' \<in> {..<M}" "n' \<in> {..<N}"
    then have mn': "m' < M" "n' < N" by simp_all
    have d: "int (M - 1 - m) - int (M - 1 - m') = - (int m - int m')"
      "int (N - 1 - n) - int (N - 1 - n') = - (int n - int n')"
      using m n mn' by simp_all
    have k: "kern M N G (int (M - 1 - m) - int (M - 1 - m')) (int (N - 1 - n) - int (N - 1 - n'))
        = kern M N G (int m - int m') (int n - int n')"
      unfolding d by (rule ev)
    have "psi ! (M - 1 - m') ! (N - 1 - n') = psi ! m' ! n'"
      using sym mn' by (simp add: point_symmetric_def)
    then show "h (M - 1 - m') (N - 1 - n')
        = psi ! m' ! n' * kern M N G (int m - int m') (int n - int n')"
      unfolding h_def k by simp
  qed
  also have "\<dots> = kinetic_step K2 dt psi ! m ! n"
    unfolding G_def by (rule kinetic_step_nth [OF K2 psi m n, symmetric])
  finally show "kinetic_step K2 dt psi ! (M - 1 - m) ! (N - 1 - n)
      = kinetic_step K2 dt psi ! m ! n" .
qed

lemma point_symmetricI:
  "(\<And>i j. i < M \<Longrightarrow> j < N \<Longrightarrow> A ! (M - 1 - i) ! (N - 1 - j) = A ! i ! j)
    \<Longrightarrow> point_symmetric M N A"
  by (simp add: point_symmetric_def)

lemma point_symmetricD:
  "point_symmetric M N A \<Longrightarrow> i < M \<Longrightarrow> j < N \<Longrightarrow> A ! (M - 1 - i) ! (N - 1 - j) = A ! i ! j"
  by (simp add: point_symmetric_def)

lemma mirror_less: "i < M \<Longrightarrow> M - 1 - i < (M::nat)"
  by simp

lemma point_symmetric_emap:
  assumes "rect M N A" "point_symmetric M N A"
  shows "point_symmetric M N (emap f A)"
proof (rule point_symmetricI)
  fix i j assume ij: "i < M" "j < N"
  show "emap f A ! (M - 1 - i) ! (N - 1 - j) = emap f A ! i ! j"
    using assms(1) ij point_symmetricD [OF assms(2) ij]
    by (simp only: emap_nth mirror_less)
qed

lemma point_symmetric_half_step:
  assumes "rect M N V" "rect M N psi" "point_symmetric M N V" "point_symmetric M N psi"
  shows "point_symmetric M N (half_step V g dt psi)"
proof (rule point_symmetricI)
  fix i j assume ij: "i < M" "j < N"
  show "half_step V g dt psi ! (M - 1 - i) ! (N - 1 - j) = half_step V g dt psi ! i ! j"
    using assms(1,2) ij point_symmetricD [OF assms(3) ij] point_symmetricD [OF assms(4) ij]
    by (simp only: half_step_nth mirror_less)
qed

lemma point_symmetric_normalize:
  assumes "rect M N psi" "point_symmetric M N psi" "normalize dx dy psi = Some psi'"
  shows "point_symmetric M N psi'"
  using assms by (auto simp: normalize_def Let_def point_symmetric_emap split: if_splits)

lemma cos_sq_even:
  assumes "x'\<^sup>2 = (x::real)\<^sup>2"
  shows "(cos (pi * x' / a))\<^sup>2 = (cos (pi * x / a))\<^sup>2"
proof -
  have "x' = x \<or> x' = - x" using assms by (simp add: power2_eq_iff)
  then show ?thesis by auto
qed

lemma grid_mirror:
  assumes "prepare Nx Ny Lx Ly V0 a sigma = Inr s" "i < nat Nx" "j < nat Ny"
  shows "(s_x s ! (nat Nx - 1 - i))\<^sup>2 = (s_x s ! i)\<^sup>2"
    "(s_y s ! (nat Ny - 1 - j))\<^sup>2 = (s_y s ! j)\<^sup>2"
proof -
  note p = prepare_Inr [OF assms(1)]
  show "(s_x s ! (nat Nx - 1 - i))\<^sup>2 = (s_x s ! i)\<^sup>2"
    unfolding p(7) using p(1) assms(2) by (rule the_grid_reflect)
  show "(s_y s ! (nat Ny - 1 - j))\<^sup>2 = (s_y s ! j)\<^sup>2"
    unfolding p(8) using p(2) assms(3) by (rule the_grid_reflect)
qed

lemma point_symmetric_mesh_map:
  assumes s: "prepare Nx Ny Lx Ly V0 a sigma = Inr s"
    and f: "\<And>x x' y y'. x'\<^sup>2 = x\<^sup>2 \<Longrightarrow> y'\<^sup>2 = y\<^sup>2 \<Longrightarrow> f x' y' = f x y"
  shows "point_symmetric (nat Nx) (nat Ny)
    (emap2 f (fst (meshgrid (s_x s) (s_y s))) (snd (meshgrid (s_x s) (s_y s))))"
proof (rule point_symmetricI)
  note l = prepare_lengths [OF s]
  fix i j assume ij: "i < nat Nx" "j < nat Ny"
  then have ij': "nat Nx - 1 - i < nat Nx" "nat Ny - 1 - j < nat Ny" by simp_all
  let ?X = "fst (meshgrid (s_x s) (s_y s))" and ?Y = "snd (meshgrid (s_x s) (s_y s))"
  have "emap2 f ?X ?Y ! (nat Nx - 1 - i) ! (nat Ny - 1 - j)
      = f (s_x s ! (nat Nx - 1 - i)) (s_y s ! (nat Ny - 1 - j))"
    using l ij' by (simp add: emap2_nth meshgrid_nth)
  also have "\<dots> = f (s_x s ! i) (s_y s ! j)"
    using grid_mirror [OF s ij] by (rule f)
  also have "\<dots> = emap2 f ?X ?Y ! i ! j"
    using l ij by (simp add: emap2_nth meshgrid_nth)
  finally show "emap2 f ?X ?Y ! (nat Nx - 1 - i) ! (nat Ny - 1 - j) = emap2 f ?X ?Y ! i ! j" .
qed

lemma point_symmetric_V:
  assumes "prepare Nx Ny Lx Ly V0 a sigma = Inr s" "s_V s = Some V"
  shows "point_symmetric (nat Nx) (nat Ny) V"
proof -
  have "V = emap2 (potential_at V0 a) (fst (meshgrid (s_x s) (s_y s)))
      (snd (meshgrid (s_x s) (s_y s)))"
    using prepare_Inr(9) [OF assms(1)] assms(2) by (auto simp: potential_def split: if_splits)
  moreover have "point_symmetric (nat Nx) (nat Ny)
      (emap2 (potential_at V0 a) (fst (meshgrid (s_x s) (s_y s)))
        (snd (meshgrid (s_x s) (s_y s))))"
  proof (rule point_symmetric_mesh_map [OF assms(1)])
    fix x x' y y' :: real assume h: "x'\<^sup>2 = x\<^sup>2" "y'\<^sup>2 = y\<^sup>2"
    show "potential_at V0 a x' y' = potential_at V0 a x y"
      unfolding potential_at_def cos_sq_even [OF h(1), of a] cos_sq_even [OF h(2), of a] ..
  qed
  ultimately show ?thesis by simp
qed

lemma point_symmetric_start:
  assumes "prepare Nx Ny Lx Ly V0 a sigma = Inr s" "s_psi s = Some psi"
  shows "point_symmetric (nat Nx) (nat Ny) psi"
proof -
  note p = prepare_Inr [OF assms(1)] and l = prepare_lengths [OF assms(1)]
  let ?X = "fst (meshgrid (s_x s) (s_y s))" and ?Y = "snd (meshgrid (s_x s) (s_y s))"
  have "Option.bind (gaussian sigma ?X ?Y) (normalize (s_dx s) (s_dy s)) = Some psi"
    using p(10) assms(2) by simp
  then obtain psi0 where g: "gaussian sigma ?X ?Y = Some psi0"
    and n: "normalize (s_dx s) (s_dy s) psi0 = Some psi"
    by (auto simp: bind_eq_Some_conv)
  have r: "rect (nat Nx) (nat Ny) psi0" using l(5,6) g by (rule rect_gaussian)
  have "psi0 = emap2 (\<lambda>x y. 0) ?X ?Y
      \<or> psi0 = emap2 (\<lambda>x y. complex_of_real (exp (- (x\<^sup>2 + y\<^sup>2) / (2 * sigma\<^sup>2)))) ?X ?Y"
    using g by (auto simp: gaussian_def split: if_splits)
  moreover have "point_symmetric (nat Nx) (nat Ny) (emap2 (\<lambda>x y. 0) ?X ?Y)"
    by (rule point_symmetric_mesh_map [OF assms(1)]) (rule refl)
  moreover have "point_symmetric (nat Nx) (nat Ny)
      (emap2 (\<lambda>x y. complex_of_real (exp (- (x\<^sup>2 + y\<^sup>2) / (2 * sigma\<^sup>2)))) ?X ?Y)"
  proof (rule point_symmetric_mesh_map [OF assms(1)])
    fix x x' y y' :: real assume "x'\<^sup>2 = x\<^sup>2" "y'\<^sup>2 = y\<^sup>2"
    then show "complex_of_real (exp (- (x'\<^sup>2 + y'\<^sup>2) / (2 * sigma\<^sup>2)))
        = complex_of_real (exp (- (x\<^sup>2 + y\<^sup>2) / (2 * sigma\<^sup>2)))"
      by (simp only:)
  qed
  ultimately have "point_symmetric (nat Nx) (nat Ny) psi0" by blast
  then show ?thesis by (rule point_symmetric_normalize [OF r _ n])
qed

lemma state_symmetric:
  assumes "prepare Nx Ny Lx Ly V0 a sigma = Inr s"
    "time_loop t (s_V s) (s_K2 s) g dt (s_dx s) (s_dy s) (s_psi s) = Some psi"
  shows "point_symmetric (nat Nx) (nat Ny) psi"
  using assms(2)
proof (induction t arbitrary: psi)
  case 0
  then show ?case using point_symmetric_start [OF assms(1)] by simp
next
  case (Suc t)
  note l = prepare_lengths [OF assms(1)]
  let ?prev = "time_loop t (s_V s) (s_K2 s) g dt (s_dx s) (s_dy s) (s_psi s)"
  have it: "iteration (s_V s) (s_K2 s) g dt (s_dx s) (s_dy s) ?prev = Some psi"
    using Suc.prems by (simp only: time_loop_Suc_end)
  then obtain V q where V: "s_V s = Some V" and q: "?prev = Some q"
    by (cases "s_V s"; cases ?prev) simp_all
  have rV: "rect (nat Nx) (nat Ny) V" using assms(1) V by (rule prepare_rect_V)
  have sV: "point_symmetric (nat Nx) (nat Ny) V" using assms(1) V by (rule point_symmetric_V)
  have rq: "rect (nat Nx) (nat Ny) q" using state_invariant [OF assms(1) q] by simp
  have sq: "point_symmetric (nat Nx) (nat Ny) q" using q by (rule Suc.IH)
  let ?p1 = "half_step V g dt q"
  let ?p2 = "kinetic_step (s_K2 s) dt ?p1"
  let ?p3 = "half_step V g dt ?p2"
  have n: "normalize (s_dx s) (s_dy s) ?p3 = Some psi"
    using it unfolding q unfolding V iteration_Some .
  have r1: "rect (nat Nx) (nat Ny) ?p1" using rV rq by (rule rect_half_step)
  have s1: "point_symmetric (nat Nx) (nat Ny) ?p1" using rV rq sV sq by (rule point_symmetric_half_step)
  have r2: "rect (nat Nx) (nat Ny) ?p2" using l(7) r1 by (rule rect_kinetic_step)
  have s2: "point_symmetric (nat Nx) (nat Ny) ?p2"
    using l(7) r1 s1 by (rule point_symmetric_kinetic_step) (rule K2_even [OF assms(1)])
  have r3: "rect (nat Nx) (nat Ny) ?p3" using rV r2 by (rule rect_half_step)
  have s3: "point_symmetric (nat Nx) (nat Ny) ?p3" using rV r2 sV s2 by (rule point_symmetric_half_step)
  show ?case using r3 s3 n by (rule point_symmetric_normalize)
qed

lemma the_grid_mirror:
  assumes "2 \<le> n" "i < nat n"
  shows "the_grid L n ! (nat n - 1 - i) = - (the_grid L n ! i)"
proof -
  have "real (nat n - 1 - i) = real_of_int (n - 1) - real i"
    using assms by (simp add: of_nat_diff)
  moreover have "nat n - 1 - i < nat n" using assms by simp
  ultimately show ?thesis using assms by (simp add: the_grid_nth field_simps)
qed

lemma point_symmetric_density:
  assumes "rect M N psi" "point_symmetric M N psi"
  shows "point_symmetric M N (density psi)"
  unfolding density_def using assms by (rule point_symmetric_emap)

text \<open>
  Claim C9. When the script returns a finite density, the density has the shape of the
  grid and takes the same value at a grid point \<open>(i, j)\<close> and at the point
  \<open>(Nx - 1 - i, Ny - 1 - j)\<close>. On a grid of at least two points per axis that point is
  the mirror image \<open>(-x[i], -y[j])\<close> of \<open>(x[i], y[j])\<close>: the centred Gaussian and the
  cosine-squared potential are even, and the half steps, the kinetic step and the
  renormalisation all keep the symmetry.
\<close>

theorem density_point_symmetric:
  assumes "gpe Nx Ny Lx Ly dt g V0 a sigma steps = Inr (Some rho)"
  shows "\<exists>s. prepare Nx Ny Lx Ly V0 a sigma = Inr s
     \<and> rect (nat Nx) (nat Ny) rho
     \<and> (\<forall>i<nat Nx. \<forall>j<nat Ny.
          rho ! (nat Nx - 1 - i) ! (nat Ny - 1 - j) = rho ! i ! j
          \<and> (2 \<le> Nx \<longrightarrow> s_x s ! (nat Nx - 1 - i) = - (s_x s ! i))
          \<and> (2 \<le> Ny \<longrightarrow> s_y s ! (nat Ny - 1 - j) = - (s_y s ! j)))"
proof -
  obtain s psi where s: "prepare Nx Ny Lx Ly V0 a sigma = Inr s"
    and t: "time_loop (nat steps) (s_V s) (s_K2 s) g dt (s_dx s) (s_dy s) (s_psi s) = Some psi"
    and rho: "rho = density psi"
    using assms by (auto simp: gpe_def psi_after_def split: sum.splits)
  note p = prepare_Inr [OF s]
  have r: "rect (nat Nx) (nat Ny) psi" using state_invariant [OF s t] by simp
  have sym: "point_symmetric (nat Nx) (nat Ny) rho"
    unfolding rho using r state_symmetric [OF s t] by (rule point_symmetric_density)
  have "\<forall>i<nat Nx. \<forall>j<nat Ny.
          rho ! (nat Nx - 1 - i) ! (nat Ny - 1 - j) = rho ! i ! j
          \<and> (2 \<le> Nx \<longrightarrow> s_x s ! (nat Nx - 1 - i) = - (s_x s ! i))
          \<and> (2 \<le> Ny \<longrightarrow> s_y s ! (nat Ny - 1 - j) = - (s_y s ! j))"
  proof (intro allI impI conjI)
    fix i j assume ij: "i < nat Nx" "j < nat Ny"
    show "rho ! (nat Nx - 1 - i) ! (nat Ny - 1 - j) = rho ! i ! j"
      using sym ij by (rule point_symmetricD)
    show "s_x s ! (nat Nx - 1 - i) = - (s_x s ! i)" if "2 \<le> Nx"
      unfolding p(7) using that ij(1) by (rule the_grid_mirror)
    show "s_y s ! (nat Ny - 1 - j) = - (s_y s ! j)" if "2 \<le> Ny"
      unfolding p(8) using that ij(2) by (rule the_grid_mirror)
  qed
  moreover have "rect (nat Nx) (nat Ny) rho" unfolding rho using r by simp
  ultimately show ?thesis using s by blast
qed

section \<open>The loop never breaks down on a valid grid\<close>

lemma dft_kernel_swap: "dft_kernel M N m n k l = dft_kernel M N k l m n"
  by (simp add: dft_kernel_def mult.commute)

lemma vanishes_fft2:
  assumes "rect M N A" "vanishes M N A"
  shows "vanishes M N (fft2 A)"
  using assms by (simp add: vanishes_def fft2_nth)

lemma vanishes_ifft2:
  assumes "rect M N A" "vanishes M N A"
  shows "vanishes M N (ifft2 A)"
  using assms by (simp add: vanishes_def ifft2_nth)

lemma fft2_ifft2:
  assumes F: "rect M N F"
  shows "fft2 (ifft2 F) = F"
proof (rule rect_ext)
  have rI: "rect M N (ifft2 F)" using F by (rule rect_ifft2)
  show "rect M N (fft2 (ifft2 F))" using rI by (rule rect_fft2)
  show "rect M N F" by fact
  fix k l assume k: "k < M" and l: "l < N"
  define c where "c = complex_of_nat (M * N)"
  have c: "c \<noteq> 0" using k l by (simp add: c_def)
  let ?w = "\<lambda>k' l' m n. wave M (int k' - int k) m * wave N (int l' - int l) n"
  have "fft2 (ifft2 F) ! k ! l
      = (\<Sum>m<M. \<Sum>n<N. ifft2 F ! m ! n * cis (- dft_kernel M N m n k l))"
    using rI k l by (rule fft2_nth)
  also have "\<dots> = (\<Sum>m<M. \<Sum>n<N. \<Sum>k'<M. \<Sum>l'<N. F ! k' ! l' * (?w k' l' m n / c))"
  proof (intro sum.cong refl)
    fix m n assume "m \<in> {..<M}" "n \<in> {..<N}"
    then have mn: "m < M" "n < N" by simp_all
    have "ifft2 F ! m ! n * cis (- dft_kernel M N m n k l)
        = (\<Sum>k'<M. \<Sum>l'<N. F ! k' ! l' * cis (dft_kernel M N m n k' l')) / c
            * cis (- dft_kernel M N m n k l)"
      unfolding c_def by (simp only: ifft2_nth [OF F mn])
    also have "\<dots> = (\<Sum>k'<M. \<Sum>l'<N. F ! k' ! l' * cis (dft_kernel M N m n k' l') / c
            * cis (- dft_kernel M N m n k l))"
      by (simp only: sum_divide_distrib sum_distrib_right)
    also have "\<dots> = (\<Sum>k'<M. \<Sum>l'<N. F ! k' ! l' * (?w k' l' m n / c))"
    proof (intro sum.cong refl)
      fix k' l'
      have "cis (dft_kernel M N m n k' l') * cis (- dft_kernel M N m n k l) = ?w k' l' m n"
        unfolding dft_kernel_swap [of M N m n]
        by (simp only: cis_mult cis_dft_kernel [symmetric]) simp
      then show "F ! k' ! l' * cis (dft_kernel M N m n k' l') / c
            * cis (- dft_kernel M N m n k l) = F ! k' ! l' * (?w k' l' m n / c)"
        by (simp add: mult_ac)
    qed
    finally show "ifft2 F ! m ! n * cis (- dft_kernel M N m n k l)
        = (\<Sum>k'<M. \<Sum>l'<N. F ! k' ! l' * (?w k' l' m n / c))" .
  qed
  also have "\<dots> = (\<Sum>k'<M. \<Sum>l'<N. \<Sum>m<M. \<Sum>n<N. F ! k' ! l' * (?w k' l' m n / c))"
    by (rule sum4_swap)
  also have "\<dots> = (\<Sum>k'<M. \<Sum>l'<N. F ! k' ! l' * ((\<Sum>m<M. \<Sum>n<N. ?w k' l' m n) / c))"
    by (simp only: sum_distrib_left sum_divide_distrib)
  also have "\<dots> = (\<Sum>k'<M. \<Sum>l'<N. if k' = k \<and> l' = l then F ! k' ! l' else 0)"
  proof (intro sum.cong refl)
    fix k' l' assume "k' \<in> {..<M}" "l' \<in> {..<N}"
    then have kl': "k' < M" "l' < N" by simp_all
    have "(\<Sum>m<M. \<Sum>n<N. ?w k' l' m n)
        = (\<Sum>m<M. wave M (int k' - int k) m) * (\<Sum>n<N. wave N (int l' - int l) n)"
      by (simp add: sum_product)
    also have "\<dots> = (if k' = k \<and> l' = l then c else 0)"
      using k l kl' by (simp add: wave_sum c_def)
    finally show "F ! k' ! l' * ((\<Sum>m<M. \<Sum>n<N. ?w k' l' m n) / c)
        = (if k' = k \<and> l' = l then F ! k' ! l' else 0)"
      using c by simp
  qed
  also have "\<dots> = (\<Sum>k'<M. if k' = k then (\<Sum>l'<N. if l' = l then F ! k' ! l' else 0) else 0)"
    by (intro sum.cong refl) simp
  also have "\<dots> = F ! k ! l" using k l by simp
  finally show "fft2 (ifft2 F) ! k ! l = F ! k ! l" .
qed

lemma total_density_zero:
  assumes "rect M N A" "total (density A) = 0"
  shows "vanishes M N A"
proof -
  have "(\<Sum>i<M. \<Sum>j<N. (cmod (A ! i ! j))\<^sup>2) = 0"
    using assms by (subst (asm) total_sum [of M N]) (simp_all add: density_nth)
  then have "\<forall>i\<in>{..<M}. (\<Sum>j<N. (cmod (A ! i ! j))\<^sup>2) = 0"
    by (subst (asm) sum_nonneg_eq_0_iff) (simp_all add: sum_nonneg)
  then have "\<forall>i\<in>{..<M}. \<forall>j\<in>{..<N}. (cmod (A ! i ! j))\<^sup>2 = 0"
    by (simp add: sum_nonneg_eq_0_iff)
  then show ?thesis by (simp add: vanishes_def)
qed

lemma vanishes_total_density:
  assumes "rect M N A" "vanishes M N A"
  shows "total (density A) = 0"
  using assms by (subst total_sum [of M N]) (simp_all add: density_nth vanishes_def)

lemma vanishes_half_step:
  assumes "rect M N V" "rect M N psi" "vanishes M N (half_step V g dt psi)"
  shows "vanishes M N psi"
  unfolding vanishes_def
proof (intro allI impI)
  fix i j assume ij: "i < M" "j < N"
  have "half_step V g dt psi ! i ! j = 0" using assms(3) ij by (simp add: vanishes_def)
  then show "psi ! i ! j = 0" unfolding half_step_nth [OF assms(1,2) ij] by simp
qed

lemma vanishes_kinetic_step:
  assumes K2: "rect M N K2" and psi: "rect M N psi"
    and z: "vanishes M N (kinetic_step K2 dt psi)"
  shows "vanishes M N psi"
proof -
  let ?pk = "emap2 (\<lambda>k z. z * cis (- k * dt / 2)) K2 (fft2 psi)"
  have rf: "rect M N (fft2 psi)" using psi by (rule rect_fft2)
  have rk: "rect M N ?pk" using K2 rf by (rule rect_emap2)
  have "vanishes M N (ifft2 ?pk)" using z by (simp only: kinetic_step_eq)
  with rect_ifft2 [OF rk] have "vanishes M N (fft2 (ifft2 ?pk))" by (rule vanishes_fft2)
  then have zk: "vanishes M N ?pk" by (simp only: fft2_ifft2 [OF rk])
  have "vanishes M N (fft2 psi)"
    unfolding vanishes_def
  proof (intro allI impI)
    fix k l assume kl: "k < M" "l < N"
    have "?pk ! k ! l = 0" using zk kl by (simp add: vanishes_def)
    then show "fft2 psi ! k ! l = 0" unfolding emap2_nth [OF K2 rf kl] by simp
  qed
  with rf have "vanishes M N (ifft2 (fft2 psi))" by (rule vanishes_ifft2)
  then show ?thesis by (simp only: ifft2_fft2 [OF psi])
qed

lemma iteration_finite:
  assumes V: "rect M N V" and K2: "rect M N K2" and psi: "rect M N psi"
    and M: "0 < M" and N: "0 < N" and d: "0 < dx * dy"
    and one: "total (density psi) * dx * dy = 1"
  shows "\<exists>psi'. iteration (Some V) K2 g dt dx dy (Some psi) = Some psi'"
proof -
  let ?p1 = "half_step V g dt psi"
  let ?p2 = "kinetic_step K2 dt ?p1"
  let ?p3 = "half_step V g dt ?p2"
  have r1: "rect M N ?p1" using V psi by (rule rect_half_step)
  have r2: "rect M N ?p2" using K2 r1 by (rule rect_kinetic_step)
  have r3: "rect M N ?p3" using V r2 by (rule rect_half_step)
  have "total (density ?p3) \<noteq> 0"
  proof
    assume "total (density ?p3) = 0"
    with r3 have "vanishes M N ?p3" by (rule total_density_zero)
    with V r2 have "vanishes M N ?p2" by (rule vanishes_half_step)
    with K2 r1 have "vanishes M N ?p1" by (rule vanishes_kinetic_step)
    with V psi have "vanishes M N psi" by (rule vanishes_half_step)
    with psi have "total (density psi) = 0" by (rule vanishes_total_density)
    then show False using one by simp
  qed
  moreover have "0 \<le> total (density ?p3)" using r3 by (rule total_nonneg_density)
  ultimately have "0 < total (density ?p3)" by simp
  then have "0 < total (density ?p3) * (dx * dy)" using d by (rule mult_pos_pos)
  then have "0 < total (density ?p3) * dx * dy" by (simp only: mult.assoc)
  then have "normalize dx dy ?p3
      = Some (emap (\<lambda>z. z / complex_of_real (sqrt (total (density ?p3) * dx * dy))) ?p3)"
    by (rule normalize_Some)
  then show ?thesis unfolding iteration_Some by (rule exI)
qed

lemma never_breaks_down:
  assumes "0 < Nx" "0 < Ny" "0 < Lx" "0 < Ly" "a \<noteq> 0" "0 < sigma"
  shows "\<exists>psi. psi_after Nx Ny Lx Ly dt g V0 a sigma t = Inr (Some psi)"
proof -
  obtain s psi0 where s: "prepare Nx Ny Lx Ly V0 a sigma = Inr s" and p0: "s_psi s = Some psi0"
    using gaussian_start [OF assms(6,1,2,3,4), of V0 a] by blast
  note p = prepare_Inr [OF s] and l = prepare_lengths [OF s]
  obtain V where V: "s_V s = Some V" using p(9) assms(5) by (simp add: potential_def)
  have rV: "rect (nat Nx) (nat Ny) V" using s V by (rule prepare_rect_V)
  have d: "0 < s_dx s * s_dy s" using p(5,6) assms(1-4) by simp
  have "\<exists>psi. time_loop t (s_V s) (s_K2 s) g dt (s_dx s) (s_dy s) (s_psi s) = Some psi"
  proof (induction t)
    case 0
    show ?case using p0 by simp
  next
    case (Suc t)
    then obtain q where q: "time_loop t (s_V s) (s_K2 s) g dt (s_dx s) (s_dy s) (s_psi s) = Some q"
      by blast
    have inv: "rect (nat Nx) (nat Ny) q" "total (density q) * s_dx s * s_dy s = 1"
      using state_invariant [OF s q] by simp_all
    have "\<exists>psi'. iteration (Some V) (s_K2 s) g dt (s_dx s) (s_dy s) (Some q) = Some psi'"
      using rV l(7) inv(1) _ _ d inv(2) by (rule iteration_finite) (use assms in simp_all)
    then show ?case unfolding time_loop_Suc_end q unfolding V .
  qed
  then show ?thesis by (simp add: psi_after_def s)
qed

section \<open>The invariants along a run\<close>

text \<open>
  Claim C1. Whenever \<open>psi\<close> is finite after the initialisation and \<open>t\<close> passes through
  the loop body (no division by a zero or \<^verbatim>\<open>nan\<close> norm has happened, at the initialisation
  or at the end of any of the \<open>t\<close> passes), \<open>psi\<close> has the shape of the grid and its
  discrete norm \<open>\<Sum> |psi|\<^sup>2 dx dy\<close> is exactly \<open>1\<close>. This holds for \<open>t = 0\<close>, right after
  line 35, and after the renormalisation that ends each pass. On a grid of positive sizes
  and lengths, with \<open>a \<noteq> 0\<close> and \<open>sigma > 0\<close>, the precondition always holds: \<open>psi\<close> is
  finite after every number of passes.
\<close>

theorem normalization_invariant:
  "(psi_after Nx Ny Lx Ly dt g V0 a sigma t = Inr (Some psi) \<longrightarrow>
      (\<exists>s. prepare Nx Ny Lx Ly V0 a sigma = Inr s
        \<and> rect (nat Nx) (nat Ny) psi
        \<and> total (density psi) * s_dx s * s_dy s = 1))
   \<and> (0 < Nx \<and> 0 < Ny \<and> 0 < Lx \<and> 0 < Ly \<and> a \<noteq> 0 \<and> 0 < sigma \<longrightarrow>
      (\<exists>psi'. psi_after Nx Ny Lx Ly dt g V0 a sigma t = Inr (Some psi')))"
proof (intro conjI impI)
  assume a: "psi_after Nx Ny Lx Ly dt g V0 a sigma t = Inr (Some psi)"
  then obtain s where s: "prepare Nx Ny Lx Ly V0 a sigma = Inr s"
    and t: "time_loop t (s_V s) (s_K2 s) g dt (s_dx s) (s_dy s) (s_psi s) = Some psi"
    by (auto simp: psi_after_def split: sum.splits)
  show "\<exists>s. prepare Nx Ny Lx Ly V0 a sigma = Inr s
        \<and> rect (nat Nx) (nat Ny) psi
        \<and> total (density psi) * s_dx s * s_dy s = 1"
    using s state_invariant [OF s t] by blast
next
  assume "0 < Nx \<and> 0 < Ny \<and> 0 < Lx \<and> 0 < Ly \<and> a \<noteq> 0 \<and> 0 < sigma"
  then show "\<exists>psi'. psi_after Nx Ny Lx Ly dt g V0 a sigma t = Inr (Some psi')"
    by (intro never_breaks_down) simp_all
qed

theorem normalization_invariant_witness:
  "\<exists>psi s. psi_after 256 256 10 10 (1 / 5000) 1 10 2 1 2000 = Inr (Some psi)
     \<and> prepare 256 256 10 10 10 2 1 = Inr s \<and> rect (nat 256) (nat 256) psi
     \<and> total (density psi) * s_dx s * s_dy s = 1"
proof -
  note t = normalization_invariant [of 256 256 10 10 "1 / 5000" 1 10 2 1 2000]
  obtain psi where psi: "psi_after 256 256 10 10 (1 / 5000) 1 10 2 1 2000 = Inr (Some psi)"
    using t [of "[]"] by auto
  show ?thesis using t [of psi] psi by blast
qed

section \<open>The shipped configuration\<close>

text \<open>
  The script as shipped (\<open>Nx = Ny = 256\<close>, \<open>Lx = Ly = 10\<close>, \<open>dt = 0.0002\<close>, \<open>g = 1\<close>,
  \<open>V0 = 10\<close>, \<open>a = 2\<close>, \<open>sigma = 1\<close>, \<open>steps = 2000\<close>) meets the hypotheses of the
  theorems on the density and on the loop body.
\<close>

theorem density_point_symmetric_witness:
  "\<exists>rho s. gpe 256 256 10 10 (1 / 5000) 1 10 2 1 2000 = Inr (Some rho)
     \<and> prepare 256 256 10 10 10 2 1 = Inr s
     \<and> rho ! 255 ! 255 = rho ! 0 ! 0 \<and> rho ! 200 ! 100 = rho ! 55 ! 155
     \<and> s_x s ! 255 = - (s_x s ! 0) \<and> s_y s ! 100 = - (s_y s ! 155)"
proof -
  obtain psi where "psi_after 256 256 10 10 (1 / 5000) 1 10 2 1 2000 = Inr (Some psi)"
    using never_breaks_down [of 256 256 10 10 2 1 "1 / 5000" 1 10 2000] by auto
  then have g: "gpe 256 256 10 10 (1 / 5000) 1 10 2 1 2000 = Inr (Some (density psi))"
    by (simp add: gpe_def)
  obtain s where s: "prepare 256 256 10 10 10 2 1 = Inr s"
    and sym: "\<forall>i<nat 256. \<forall>j<nat 256.
          density psi ! (nat 256 - 1 - i) ! (nat 256 - 1 - j) = density psi ! i ! j
          \<and> ((2::int) \<le> 256 \<longrightarrow> s_x s ! (nat 256 - 1 - i) = - (s_x s ! i))
          \<and> ((2::int) \<le> 256 \<longrightarrow> s_y s ! (nat 256 - 1 - j) = - (s_y s ! j))"
    using density_point_symmetric [OF g] by blast
  have "density psi ! 255 ! 255 = density psi ! 0 ! 0" "s_x s ! 255 = - (s_x s ! 0)"
    using sym [rule_format, of 0 0] by simp_all
  moreover have "density psi ! 200 ! 100 = density psi ! 55 ! 155"
    "s_y s ! 100 = - (s_y s ! 155)"
    using sym [rule_format, of 55 155] by simp_all
  ultimately show ?thesis using g s by blast
qed


end
